theory Spec2Isabelle
  imports Complex_Main
begin

section \<open>Exceptions and the state-and-exception monad\<close>

text \<open>
  The service is Python: every step may raise, and what it has already written to the
  object or to the disk stays written. A computation is therefore a function from the
  state to an outcome (\<open>Inl\<close> the exception raised, \<open>Inr\<close> the value returned) paired
  with the state it leaves. An exception carries its class and its message (\<open>str(e)\<close>).
  Only subclasses of \<open>Exception\<close> are modelled: they are what \<open>except Exception\<close>
  catches.
\<close>

datatype exn_class =
    ValueError | KeyError | AttributeError | TypeError | ZeroDivisionError
  | OtherException string

datatype exn = Exn (exn_type: exn_class) (exn_msg: string)

type_synonym ('s, 'a) prog = "'s \<Rightarrow> (exn + 'a) \<times> 's"

definition returnM :: "'a \<Rightarrow> ('s, 'a) prog" where
  "returnM a = (\<lambda>s. (Inr a, s))"

definition raiseM :: "exn \<Rightarrow> ('s, 'a) prog" where
  "raiseM e = (\<lambda>s. (Inl e, s))"

definition bindM :: "('s, 'a) prog \<Rightarrow> ('a \<Rightarrow> ('s, 'b) prog) \<Rightarrow> ('s, 'b) prog" where
  "bindM m f = (\<lambda>s. case m s of (Inl e, s') \<Rightarrow> (Inl e, s') | (Inr a, s') \<Rightarrow> f a s')"

text \<open>\<open>try: m except Exception as e: h e\<close>\<close>

definition catchM :: "('s, 'a) prog \<Rightarrow> (exn \<Rightarrow> ('s, 'a) prog) \<Rightarrow> ('s, 'a) prog" where
  "catchM m h = (\<lambda>s. case m s of (Inl e, s') \<Rightarrow> h e s' | (Inr a, s') \<Rightarrow> (Inr a, s'))"

text \<open>A pure step that may raise.\<close>

definition liftE :: "exn + 'a \<Rightarrow> ('s, 'a) prog" where
  "liftE r = (\<lambda>s. (r, s))"

section \<open>Data model\<close>

text \<open>
  A LangChain \<open>Document\<close> (a fetched document and a chunk alike) is its text and its
  metadata. The code reads four metadata entries: \<open>key\<close> by subscript (a missing key
  raises \<open>KeyError\<close>), and \<open>key\<close>, \<open>source\<close>, \<open>size\<close>, \<open>last_modified\<close> by \<open>.get\<close>.
  An entry is absent (\<open>None\<close>) or has the type the response schema wants; a
  \<open>last_modified\<close> is a datetime (it has \<open>isoformat\<close>, given here by its result) or a
  plain string.
\<close>

datatype stamp = Datetime string | Text string

record doc_meta =
  m_key :: "string option"
  m_source :: "string option"
  m_size :: "int option"
  m_last_modified :: "stamp option"

record document =
  page_content :: string
  metadata :: doc_meta

type_synonym hash = string

text \<open>
  What \<open>json.loads\<close> gives for the hash file. A stored value matters only through
  \<open>!=\<close> against a hash string: it is a JSON string or something else. A document that
  is not an object has no \<open>.get\<close>; it has a \<open>len\<close> (an array or a string) or none
  (a number, a boolean, \<open>null\<close>).
\<close>

datatype jval = JStr string | JNonStr

datatype parsed = PDict "string \<rightharpoonup> jval" | PSized nat | PUnsized

datatype hcontent = Unparsable | Parsed parsed

text \<open>The hash file on disk: its content and its modification time (as \<open>isoformat\<close> prints it).\<close>

datatype hfile = HFile hcontent string

text \<open>
  The index directory on disk: it holds a completely saved index, or something
  \<open>FAISS.load_local\<close> cannot be expected to read (a directory just created, or what a
  failed save left behind).
\<close>

datatype 'ix dir_state = Saved 'ix | Unreadable

text \<open>
  A floating-point value, of whatever format (the engine's scores are its own numeric
  type, a threshold is a Python float): its exact value when finite, an infinity, or
  not a number. \<open>num_ge x y\<close> is the comparison \<open>x >= y\<close>, which compares exact
  values and is false as soon as a side is not a number.
\<close>

datatype pynum = Finite real | PosInf | NegInf | NaN

fun num_ge :: "pynum \<Rightarrow> pynum \<Rightarrow> bool" where
  "num_ge NaN y = False"
| "num_ge x NaN = False"
| "num_ge PosInf y = True"
| "num_ge x NegInf = True"
| "num_ge NegInf y = False"
| "num_ge x PosInf = False"
| "num_ge (Finite x) (Finite y) = (y \<le> x)"

text \<open>The schemas of \<open>app/models/schemas.py\<close>.\<close>

record DocumentMetadata =
  dm_key :: string
  dm_source :: string
  dm_size :: "int option"
  dm_last_modified :: "string option"

record DocumentChunk =
  content :: string
  chunk_metadata :: DocumentMetadata
  score :: "pynum option"

record EmbeddingStats =
  total_documents :: nat
  total_chunks :: nat
  last_update :: "string option"
  vector_store_size :: "nat option"

text \<open>
  The dictionary \<open>process_embeddings\<close> returns, without \<open>execution_time\<close> (wall-clock
  time is outside the model).
\<close>

record process_result =
  success :: bool
  message :: string
  stats :: EmbeddingStats

section \<open>The environment: external collaborators and faults\<close>

text \<open>
  File-system operations that may raise. Which of them raises, and when, is decided by
  the environment: \<open>io_fault env op t\<close> is the exception operation \<open>op\<close> raises when it
  is the \<open>t\<close>-th file-system operation the service performs, if it raises.
\<close>

datatype io_op =
    HashExists | HashRead | HashStat | HashMkdir | HashWrite
  | StoreExists | StoreSize | StoreMkdir | StoreSave

text \<open>
  Everything the service calls and does not own is a parameter: the S3 loader, the
  text splitter, the FAISS index (of an arbitrary type \<open>'ix\<close>), SHA-256, and the
  file system's faults. Nothing is assumed about them. So is the arithmetic of the
  scores, which belongs to the numeric type the engine returns: \<open>fl\<close> rounds an
  exact result to that floating-point format, \<open>zero_division\<close> is what dividing 1
  by zero does (a Python float raises, a numpy scalar gives an infinity),
  \<open>round4\<close> is \<open>round(x, 4)\<close>, and \<open>coerce\<close> is what the comparison of line
  196 makes of the threshold, a Python float, before it compares (nothing when the
  similarity is a Python float or as wide; a rounding when it is a narrower scalar).
\<close>

record 'ix env =
  load_documents :: "exn + document list"
  sha256 :: "string \<Rightarrow> hash"
  split_documents :: "document list \<Rightarrow> exn + document list"
  from_documents :: "document list \<Rightarrow> exn + 'ix"
  merge_from :: "'ix \<Rightarrow> 'ix \<Rightarrow> exn + 'ix"
  load_local :: "'ix dir_state \<Rightarrow> exn + 'ix"
  similarity_search_with_score :: "'ix \<Rightarrow> string \<Rightarrow> int \<Rightarrow> exn + (document \<times> pynum) list"
  ntotal :: "'ix \<Rightarrow> nat option"
  dir_size :: "'ix dir_state \<Rightarrow> nat"
  io_fault :: "io_op \<Rightarrow> nat \<Rightarrow> exn option"
  torn_store :: "'ix dir_state"
  torn_hash_file :: "hfile option"
  now :: string
  new_embeddings :: "exn option"
  fl :: "real \<Rightarrow> pynum"
  zero_division :: "exn + pynum"
  round4 :: "pynum \<Rightarrow> pynum"
  coerce :: "pynum \<Rightarrow> pynum"

text \<open>
  The service object and the files it owns. \<open>clock\<close> counts the file-system operations
  performed; \<open>trace\<close> is a ghost log of the pipeline steps taken, in order.
\<close>

datatype event =
    EvSplit "document list"
  | EvFromDocuments "document list"
  | EvMergeFrom
  | EvSaveLocal bool
  | EvWriteHashes bool

record 'ix service =
  vector_store :: "'ix option"
  store_dir :: "'ix dir_state option"
  hash_file :: "hfile option"
  clock :: nat
  trace :: "event list"

definition io :: "'ix env \<Rightarrow> io_op \<Rightarrow> ('ix service, unit) prog" where
  "io env op = (\<lambda>s.
     ((case io_fault env op (clock s) of Some e \<Rightarrow> Inl e | None \<Rightarrow> Inr ()),
      s\<lparr>clock := Suc (clock s)\<rparr>))"

definition log :: "event \<Rightarrow> ('ix service, unit) prog" where
  "log ev = (\<lambda>s. (Inr (), s\<lparr>trace := trace s @ [ev]\<rparr>))"

section \<open>Fingerprint map: loading and change-set classification\<close>

text \<open>
  \<open>_load_previous_hashes\<close>: the \<open>exists\<close> test is outside the \<open>try\<close>; a failure to read
  or parse is caught and gives the empty dictionary.
\<close>

definition load_previous_hashes :: "'ix env \<Rightarrow> ('ix service, parsed) prog" where
  "load_previous_hashes env =
     bindM (io env HashExists) (\<lambda>_ s.
       case hash_file s of
         None \<Rightarrow> (Inr (PDict Map.empty), s)
       | Some (HFile c mt) \<Rightarrow>
           (case io env HashRead s of
              (Inl e, s') \<Rightarrow> (Inr (PDict Map.empty), s')
            | (Inr _, s') \<Rightarrow>
                (case c of Unparsable \<Rightarrow> (Inr (PDict Map.empty), s')
                 | Parsed p \<Rightarrow> (Inr p, s'))))"

text \<open>\<open>prev_hashes.get(key)\<close>\<close>

definition py_get :: "parsed \<Rightarrow> string \<Rightarrow> exn + jval option" where
  "py_get p k = (case p of PDict m \<Rightarrow> Inr (m k)
     | _ \<Rightarrow> Inl (Exn AttributeError ''object has no attribute 'get' ''))"

text \<open>\<open>doc.metadata["key"]\<close>\<close>

definition subscript_key :: "document \<Rightarrow> exn + string" where
  "subscript_key doc = (case m_key (metadata doc) of
     None \<Rightarrow> Inl (Exn KeyError '''key' '') | Some k \<Rightarrow> Inr k)"

text \<open>
  The loop of lines 100 to 108, over the documents left, with \<open>new_docs\<close>, \<open>kept_docs\<close>
  and \<open>current_hashes\<close> as they stand.
\<close>

fun classify ::
  "'ix env \<Rightarrow> parsed \<Rightarrow> document list \<Rightarrow>
   document list \<times> document list \<times> (string \<rightharpoonup> hash) \<Rightarrow>
   exn + document list \<times> document list \<times> (string \<rightharpoonup> hash)" where
  "classify env prev_hashes [] acc = Inr acc"
| "classify env prev_hashes (doc # docs) (new_docs, kept_docs, current_hashes) =
     (case subscript_key doc of Inl e \<Rightarrow> Inl e | Inr key \<Rightarrow>
        let content_hash = sha256 env (page_content doc);
            current_hashes' = current_hashes(key \<mapsto> content_hash)
        in case py_get prev_hashes key of Inl e \<Rightarrow> Inl e | Inr stored \<Rightarrow>
             if stored \<noteq> Some (JStr content_hash)
             then classify env prev_hashes docs (new_docs @ [doc], kept_docs, current_hashes')
             else classify env prev_hashes docs (new_docs, kept_docs @ [doc], current_hashes'))"

text \<open>Line 94: \<open>prev_hashes = {} if force_update else self._load_previous_hashes()\<close>\<close>

definition previous_hashes :: "'ix env \<Rightarrow> bool \<Rightarrow> ('ix service, parsed) prog" where
  "previous_hashes env force_update =
     (if force_update then returnM (PDict Map.empty) else load_previous_hashes env)"

section \<open>Statistics\<close>

text \<open>\<open>len(hashes)\<close>: the number of keys of a dictionary (finite, as parsed from a file).\<close>

definition py_len :: "parsed \<Rightarrow> exn + nat" where
  "py_len p = (case p of PDict m \<Rightarrow> Inr (card (dom m)) | PSized n \<Rightarrow> Inr n
     | PUnsized \<Rightarrow> Inl (Exn TypeError ''object has no len()''))"

text \<open>Lines 233 to 235: the index's vector count, 0 without an index or without \<open>ntotal\<close>.\<close>

definition chunk_count :: "'ix env \<Rightarrow> 'ix service \<Rightarrow> nat" where
  "chunk_count env s = (case vector_store s of None \<Rightarrow> 0
     | Some ix \<Rightarrow> (case ntotal env ix of Some n \<Rightarrow> n | None \<Rightarrow> 0))"

text \<open>Lines 238 to 242: the hash file's modification time, if the file exists.\<close>

definition hash_mtime :: "'ix env \<Rightarrow> ('ix service, string option) prog" where
  "hash_mtime env =
     bindM (io env HashExists) (\<lambda>_ s.
       case hash_file s of
         None \<Rightarrow> (Inr None, s)
       | Some (HFile c mt) \<Rightarrow> bindM (io env HashStat) (\<lambda>_. returnM (Some mt)) s)"

text \<open>
  Lines 245 to 252: the size of the index directory, if it exists; the bare \<open>except\<close>
  gives \<open>None\<close> when summing the sizes fails.
\<close>

definition store_size :: "'ix env \<Rightarrow> ('ix service, nat option) prog" where
  "store_size env =
     bindM (io env StoreExists) (\<lambda>_ s.
       case store_dir s of
         None \<Rightarrow> (Inr None, s)
       | Some d \<Rightarrow>
           catchM (bindM (io env StoreSize) (\<lambda>_. returnM (Some (dir_size env d))))
                  (\<lambda>e. returnM None) s)"

definition zero_stats :: EmbeddingStats where
  "zero_stats = \<lparr>total_documents = 0, total_chunks = 0, last_update = None,
                 vector_store_size = None\<rparr>"

definition get_stats_body :: "'ix env \<Rightarrow> ('ix service, EmbeddingStats) prog" where
  "get_stats_body env =
     bindM (load_previous_hashes env) (\<lambda>hashes.
     bindM (liftE (py_len hashes)) (\<lambda>n_documents.
     bindM (\<lambda>s. (Inr (chunk_count env s), s)) (\<lambda>n_chunks.
     bindM (hash_mtime env) (\<lambda>updated.
     bindM (store_size env) (\<lambda>size.
     returnM \<lparr>total_documents = n_documents, total_chunks = n_chunks,
              last_update = updated, vector_store_size = size\<rparr>)))))"

definition get_stats :: "'ix env \<Rightarrow> ('ix service, EmbeddingStats) prog" where
  "get_stats env = catchM (get_stats_body env) (\<lambda>e. returnM zero_stats)"

section \<open>The ingest pipeline\<close>

text \<open>Decimal printing of a length, for the summary message.\<close>

definition digit :: "nat \<Rightarrow> char" where
  "digit n = ''0123456789'' ! (n mod 10)"

function show_nat :: "nat \<Rightarrow> string" where
  "show_nat n = (if n < 10 then [digit n] else show_nat (n div 10) @ [digit n])"
  by pat_completeness auto
termination
  by (relation "measure id") auto

text \<open>
  The splitter and the index constructor, logged. Constructing the splitter (line 121)
  is part of the first call of the splitter here.
\<close>

definition split :: "'ix env \<Rightarrow> document list \<Rightarrow> ('ix service, document list) prog" where
  "split env docs = bindM (log (EvSplit docs)) (\<lambda>_. liftE (split_documents env docs))"

definition build :: "'ix env \<Rightarrow> document list \<Rightarrow> ('ix service, 'ix) prog" where
  "build env chunks =
     bindM (log (EvFromDocuments chunks)) (\<lambda>_. liftE (from_documents env chunks))"

definition set_vector_store :: "'ix option \<Rightarrow> ('ix service, unit) prog" where
  "set_vector_store v = (\<lambda>s. (Inr (), s\<lparr>vector_store := v\<rparr>))"

text \<open>\<open>self.vector_store.merge_from(new_vector_store)\<close>\<close>

definition merge :: "'ix env \<Rightarrow> 'ix \<Rightarrow> ('ix service, unit) prog" where
  "merge env new_vector_store = (\<lambda>s.
     case vector_store s of
       None \<Rightarrow> (Inl (Exn AttributeError ''NoneType has no attribute merge_from''), s)
     | Some base \<Rightarrow>
         bindM (log EvMergeFrom) (\<lambda>_.
         bindM (liftE (merge_from env base new_vector_store)) (\<lambda>ix.
         set_vector_store (Some ix))) s)"

text \<open>Lines 131 to 141: create or update the vector store.\<close>

definition update_vector_store ::
  "'ix env \<Rightarrow> bool \<Rightarrow> document list \<Rightarrow> document list \<Rightarrow> ('ix service, unit) prog" where
  "update_vector_store env force_update documents chunks = (\<lambda>s.
     if vector_store s = None \<or> force_update then
       bindM (split env documents) (\<lambda>all_chunks.
       bindM (build env all_chunks) (\<lambda>ix.
       set_vector_store (Some ix))) s
     else if chunks \<noteq> [] then
       bindM (build env chunks) (\<lambda>new_vector_store. merge env new_vector_store) s
     else (Inr (), s))"

text \<open>Lines 144 and 145: \<open>mkdir(parents=True, exist_ok=True)\<close>, then \<open>save_local\<close>.\<close>

definition mkdir_store :: "'ix env \<Rightarrow> ('ix service, unit) prog" where
  "mkdir_store env =
     bindM (io env StoreMkdir) (\<lambda>_ s.
       (Inr (), s\<lparr>store_dir :=
          (case store_dir s of None \<Rightarrow> Some Unreadable | Some d \<Rightarrow> Some d)\<rparr>))"

definition save_local :: "'ix env \<Rightarrow> ('ix service, unit) prog" where
  "save_local env = (\<lambda>s.
     case vector_store s of
       None \<Rightarrow> (Inl (Exn AttributeError ''NoneType has no attribute save_local''), s)
     | Some ix \<Rightarrow>
         (case io env StoreSave s of
            (Inl e, s') \<Rightarrow>
              (Inl e, s'\<lparr>store_dir := Some (torn_store env),
                          trace := trace s' @ [EvSaveLocal False]\<rparr>)
          | (Inr _, s') \<Rightarrow>
              (Inr (), s'\<lparr>store_dir := Some (Saved ix),
                          trace := trace s' @ [EvSaveLocal True]\<rparr>)))"

definition save_vector_store :: "'ix env \<Rightarrow> ('ix service, unit) prog" where
  "save_vector_store env = bindM (mkdir_store env) (\<lambda>_. save_local env)"

text \<open>
  \<open>_save_hashes\<close>: the handler prints and raises again, so a failure leaves as it came.
  The file written is the JSON object of the dictionary.
\<close>

definition written :: "'ix env \<Rightarrow> (string \<rightharpoonup> hash) \<Rightarrow> hfile" where
  "written env hashes = HFile (Parsed (PDict (\<lambda>k. map_option JStr (hashes k)))) (now env)"

definition write_text :: "'ix env \<Rightarrow> (string \<rightharpoonup> hash) \<Rightarrow> ('ix service, unit) prog" where
  "write_text env hashes = (\<lambda>s.
     case io env HashWrite s of
       (Inl e, s') \<Rightarrow>
         (Inl e, s'\<lparr>hash_file := torn_hash_file env,
                     trace := trace s' @ [EvWriteHashes False]\<rparr>)
     | (Inr _, s') \<Rightarrow>
         (Inr (), s'\<lparr>hash_file := Some (written env hashes),
                     trace := trace s' @ [EvWriteHashes True]\<rparr>))"

definition save_hashes :: "'ix env \<Rightarrow> (string \<rightharpoonup> hash) \<Rightarrow> ('ix service, unit) prog" where
  "save_hashes env hashes =
     catchM (bindM (io env HashMkdir) (\<lambda>_. write_text env hashes)) (\<lambda>e. raiseM e)"

definition result :: "bool \<Rightarrow> string \<Rightarrow> EmbeddingStats \<Rightarrow> process_result" where
  "result ok msg st = \<lparr>success = ok, message = msg, stats = st\<rparr>"

text \<open>
  Lines 120 to 157: what a run does once it has something to process. \<open>kept_docs\<close>
  is not used after the classification.
\<close>

definition ingest ::
  "'ix env \<Rightarrow> bool \<Rightarrow> document list \<Rightarrow> document list \<Rightarrow> (string \<rightharpoonup> hash) \<Rightarrow>
   ('ix service, process_result) prog" where
  "ingest env force_update documents new_docs current_hashes =
     bindM (split env new_docs) (\<lambda>chunks.
     bindM (update_vector_store env force_update documents chunks) (\<lambda>_.
     bindM (save_vector_store env) (\<lambda>_.
     bindM (save_hashes env current_hashes) (\<lambda>_.
     bindM (get_stats env) (\<lambda>st.
     returnM (result True
       (''Successfully processed '' @ show_nat (length new_docs) @
        '' documents and created '' @ show_nat (length chunks) @ '' chunks'')
       st))))))"

text \<open>The body of the \<open>try\<close> of \<open>process_embeddings\<close>, lines 81 to 157.\<close>

definition process_body :: "'ix env \<Rightarrow> bool \<Rightarrow> ('ix service, process_result) prog" where
  "process_body env force_update =
     bindM (liftE (load_documents env)) (\<lambda>documents.
     if documents = [] then
       bindM (get_stats env) (\<lambda>st.
       returnM (result False ''No documents found to process'' st))
     else
       bindM (previous_hashes env force_update) (\<lambda>prev_hashes.
       bindM (liftE (classify env prev_hashes documents ([], [], Map.empty)))
         (\<lambda>(new_docs, kept_docs, current_hashes).
       if new_docs = [] \<and> \<not> force_update then
         bindM (get_stats env) (\<lambda>st.
         returnM (result True ''No changes detected. Vector store is up to date.'' st))
       else
         ingest env force_update documents new_docs current_hashes)))"

definition process_embeddings ::
  "'ix env \<Rightarrow> bool \<Rightarrow> ('ix service, process_result) prog" where
  "process_embeddings env force_update =
     catchM (process_body env force_update) (\<lambda>e.
       bindM (get_stats env) (\<lambda>st.
       returnM (result False (''Error processing embeddings: '' @ exn_msg e) st)))"

section \<open>The query pipeline\<close>

text \<open>
  Line 193, \<open>similarity = 1 / (1 + score)\<close>, in the arithmetic of the score: the sum
  is rounded, then the quotient; an infinity or a value that is not a number goes
  through as floating point has it.
\<close>

definition one_plus :: "'ix env \<Rightarrow> pynum \<Rightarrow> pynum" where
  "one_plus env x = (case x of Finite d \<Rightarrow> fl env (1 + d)
     | PosInf \<Rightarrow> PosInf | NegInf \<Rightarrow> NegInf | NaN \<Rightarrow> NaN)"

definition one_over :: "'ix env \<Rightarrow> pynum \<Rightarrow> exn + pynum" where
  "one_over env x = (case x of
       Finite v \<Rightarrow> (if v = 0 then zero_division env else Inr (fl env (1 / v)))
     | PosInf \<Rightarrow> Inr (Finite 0) | NegInf \<Rightarrow> Inr (Finite 0) | NaN \<Rightarrow> Inr NaN)"

definition to_similarity :: "'ix env \<Rightarrow> pynum \<Rightarrow> exn + pynum" where
  "to_similarity env distance = one_over env (one_plus env distance)"

text \<open>Lines 200 to 209: the metadata of a result, with the defaults of \<open>.get\<close>.\<close>

definition isoformat :: "stamp option \<Rightarrow> string option" where
  "isoformat lm = (case lm of None \<Rightarrow> None
     | Some (Datetime formatted) \<Rightarrow> Some formatted | Some (Text t) \<Rightarrow> Some t)"

definition to_metadata :: "document \<Rightarrow> DocumentMetadata" where
  "to_metadata doc =
     \<lparr>dm_key = (case m_key (metadata doc) of None \<Rightarrow> ''unknown'' | Some k \<Rightarrow> k),
      dm_source = (case m_source (metadata doc) of None \<Rightarrow> ''unknown'' | Some src \<Rightarrow> src),
      dm_size = m_size (metadata doc),
      dm_last_modified = isoformat (m_last_modified (metadata doc))\<rparr>"

text \<open>Lines 211 to 215: the result, with \<open>score = round(similarity, 4)\<close>.\<close>

definition to_chunk :: "'ix env \<Rightarrow> document \<Rightarrow> pynum \<Rightarrow> DocumentChunk" where
  "to_chunk env doc similarity =
     \<lparr>content = page_content doc, chunk_metadata = to_metadata doc,
      score = Some (round4 env similarity)\<rparr>"

text \<open>The loop of lines 190 to 218, over the results left, with \<open>chunks\<close> as it stands.\<close>

fun search_loop ::
  "'ix env \<Rightarrow> pynum \<Rightarrow> (document \<times> pynum) list \<Rightarrow> DocumentChunk list \<Rightarrow>
   exn + DocumentChunk list" where
  "search_loop env threshold [] chunks = Inr chunks"
| "search_loop env threshold ((doc, distance) # results) chunks =
     (case to_similarity env distance of Inl e \<Rightarrow> Inl e | Inr similarity \<Rightarrow>
        if num_ge similarity (coerce env threshold)
        then search_loop env threshold results (chunks @ [to_chunk env doc similarity])
        else search_loop env threshold results chunks)"

definition not_ready :: exn where
  "not_ready = Exn ValueError ''Vector store not available. Please process embeddings first.''"

definition search_error :: "exn \<Rightarrow> exn" where
  "search_error e = Exn ValueError (''Search error: '' @ exn_msg e)"

text \<open>
  The object \<open>search\<close> is called on. \<open>get_instance\<close> can return an object whose
  \<open>__init__\<close> raised at line 33, before line 34 assigned \<open>vector_store\<close>: reading
  the attribute at line 171, outside the \<open>try\<close>, then raises \<open>AttributeError\<close>.
  \<open>search\<close> changes nothing, so it is a function of the object.
\<close>

datatype 'ix this = Half_built | Built "'ix service"

definition no_attribute :: exn where
  "no_attribute =
     Exn AttributeError ''EmbeddingService object has no attribute vector_store''"

definition search ::
  "'ix env \<Rightarrow> string \<Rightarrow> int \<Rightarrow> pynum \<Rightarrow> 'ix this \<Rightarrow> exn + DocumentChunk list" where
  "search env query max_results threshold this =
     (case this of
        Half_built \<Rightarrow> Inl no_attribute
      | Built s \<Rightarrow>
          (case vector_store s of
             None \<Rightarrow> Inl not_ready
           | Some ix \<Rightarrow>
               (case similarity_search_with_score env ix query max_results of
                  Inl e \<Rightarrow> Inl (search_error e)
                | Inr results \<Rightarrow>
                    (case search_loop env threshold results [] of
                       Inl e \<Rightarrow> Inl (search_error e)
                     | Inr chunks \<Rightarrow> Inr chunks))))"

section \<open>The singleton\<close>

text \<open>
  The class attributes \<open>_instance\<close> and \<open>_initialized\<close>, and the objects allocated so
  far. An object has its own \<open>_initialized\<close> only once \<open>__init__\<close> has assigned it;
  until then reading \<open>self._initialized\<close> finds the class attribute. \<open>load_calls\<close>
  counts the calls of \<open>_load_vector_store\<close>.
\<close>

record 'ix obj =
  obj_initialized :: "bool option"
  obj_vector_store :: "'ix option"

record 'ix runtime =
  cls_instance :: "nat option"
  cls_initialized :: bool
  heap :: "nat \<Rightarrow> 'ix obj"
  next_addr :: nat
  rt_store_dir :: "'ix dir_state option"
  rt_clock :: nat
  load_calls :: nat

text \<open>
  \<open>_load_vector_store\<close>, as the new value of \<open>self.vector_store\<close>: every exception is
  caught and gives \<open>None\<close>; without a directory the attribute stays as it is.
\<close>

definition load_vector_store ::
  "'ix env \<Rightarrow> nat \<Rightarrow> 'ix dir_state option \<Rightarrow> 'ix option \<Rightarrow> 'ix option" where
  "load_vector_store env t dir old =
     (case io_fault env StoreExists t of
        Some e \<Rightarrow> None
      | None \<Rightarrow>
          (case dir of
             None \<Rightarrow> old
           | Some d \<Rightarrow> (case load_local env d of Inl e \<Rightarrow> None | Inr ix \<Rightarrow> Some ix)))"

text \<open>\<open>__new__\<close>\<close>

definition new_service :: "'ix runtime \<Rightarrow> nat \<times> 'ix runtime" where
  "new_service rt =
     (case cls_instance rt of
        None \<Rightarrow>
          (next_addr rt,
           rt\<lparr>cls_instance := Some (next_addr rt),
              heap := (heap rt)(next_addr rt :=
                        \<lparr>obj_initialized = None, obj_vector_store = None\<rparr>),
              next_addr := Suc (next_addr rt)\<rparr>)
      | Some a \<Rightarrow> (a, rt))"

text \<open>\<open>__init__\<close>, on the object at address \<open>a\<close>\<close>

definition init_service :: "'ix env \<Rightarrow> nat \<Rightarrow> ('ix runtime, unit) prog" where
  "init_service env a = (\<lambda>rt.
     if \<not> (case obj_initialized (heap rt a) of None \<Rightarrow> cls_initialized rt | Some b \<Rightarrow> b)
     then
       (case new_embeddings env of
          Some e \<Rightarrow> (Inl e, rt)
        | None \<Rightarrow>
            (Inr (),
             rt\<lparr>heap := (heap rt)(a :=
                   \<lparr>obj_initialized = Some True,
                    obj_vector_store =
                      load_vector_store env (rt_clock rt) (rt_store_dir rt) None\<rparr>),
                rt_clock := Suc (rt_clock rt),
                load_calls := Suc (load_calls rt)\<rparr>))
     else (Inr (), rt))"

text \<open>\<open>EmbeddingService()\<close>: \<open>__new__\<close>, then \<open>__init__\<close> on what it returned.\<close>

definition construct_service :: "'ix env \<Rightarrow> ('ix runtime, nat) prog" where
  "construct_service env = (\<lambda>rt.
     case new_service rt of (a, rt1) \<Rightarrow>
       bindM (init_service env a) (\<lambda>_. returnM a) rt1)"

definition get_instance :: "'ix env \<Rightarrow> ('ix runtime, nat) prog" where
  "get_instance env = (\<lambda>rt.
     case cls_instance rt of
       None \<Rightarrow>
         (case construct_service env rt of
            (Inl e, rt') \<Rightarrow> (Inl e, rt')
          | (Inr a, rt') \<Rightarrow> (Inr a, rt'\<lparr>cls_instance := Some a\<rparr>))
     | Some a \<Rightarrow> (Inr a, rt))"

definition reset_instance :: "'ix runtime \<Rightarrow> 'ix runtime" where
  "reset_instance rt = rt\<lparr>cls_instance := None, cls_initialized := False\<rparr>"

text \<open>
  A caller either constructs the service or asks for the instance, each time in the
  environment of the moment. A run gives, call by call, what the caller got.
\<close>

datatype call = Construct | GetInstance

definition do_call :: "'ix env \<times> call \<Rightarrow> ('ix runtime, nat) prog" where
  "do_call c = (case c of (env, Construct) \<Rightarrow> construct_service env
                | (env, GetInstance) \<Rightarrow> get_instance env)"

fun run_calls ::
  "('ix env \<times> call) list \<Rightarrow> 'ix runtime \<Rightarrow> (exn + nat) list \<times> 'ix runtime" where
  "run_calls [] rt = ([], rt)"
| "run_calls (c # cs) rt =
     (case do_call c rt of (r, rt') \<Rightarrow>
        (case run_calls cs rt' of (rs, rt'') \<Rightarrow> (r # rs, rt'')))"

text \<open>The objects a run returned.\<close>

definition returned :: "(exn + nat) list \<Rightarrow> nat list" where
  "returned rs = concat (map (\<lambda>r. case r of Inl e \<Rightarrow> [] | Inr a \<Rightarrow> [a]) rs)"


section \<open>The specification's words, and notions used to state the properties\<close>

text \<open>
  The specification's classification rule: a document is to be processed when its key
  is absent from the previous map or the hash stored there differs from its own.
\<close>

definition spec_to_process :: "'ix env \<Rightarrow> (string \<rightharpoonup> jval) \<Rightarrow> document \<Rightarrow> bool" where
  "spec_to_process env prev doc =
     (case m_key (metadata doc) of None \<Rightarrow> True
      | Some k \<Rightarrow> k \<notin> dom prev \<or> prev k \<noteq> Some (JStr (sha256 env (page_content doc))))"

text \<open>Recording the hash of each document of a list, in order, into a map.\<close>

definition record_hash ::
  "'ix env \<Rightarrow> document \<Rightarrow> (string \<rightharpoonup> hash) \<Rightarrow> (string \<rightharpoonup> hash)" where
  "record_hash env d cur = (case m_key (metadata d) of None \<Rightarrow> cur
        | Some k \<Rightarrow> cur(k \<mapsto> sha256 env (page_content d)))"

fun recorded :: "'ix env \<Rightarrow> document list \<Rightarrow> (string \<rightharpoonup> hash) \<Rightarrow> (string \<rightharpoonup> hash)" where
  "recorded env [] cur = cur"
| "recorded env (d # ds) cur = recorded env ds (record_hash env d cur)"

text \<open>
  The commit order on a log: every write of the hash file comes after a save of the
  index that succeeded, with no failed save in between.
\<close>

fun commit_ordered :: "bool \<Rightarrow> event list \<Rightarrow> bool" where
  "commit_ordered saved [] = True"
| "commit_ordered saved (EvSaveLocal ok # evs) = commit_ordered ok evs"
| "commit_ordered saved (EvWriteHashes ok # evs) = (saved \<and> commit_ordered saved evs)"
| "commit_ordered saved (EvSplit docs # evs) = commit_ordered saved evs"
| "commit_ordered saved (EvFromDocuments chunks # evs) = commit_ordered saved evs"
| "commit_ordered saved (EvMergeFrom # evs) = commit_ordered saved evs"

section \<open>A concrete environment\<close>

text \<open>
  Two documents, a toy hash, a splitter that keeps each document whole, and an index
  that is the list of its chunks and gives every chunk the distance 1. No file-system
  operation fails. The arithmetic rounds nothing, raises on a division by zero and
  compares with the threshold as it is; \<open>round(x, 4)\<close> is the nearest multiple of
  \<open>1/10000\<close>, a tie going to the even one. On the values the examples use (sums
  and quotients that are powers of two, rounded to \<open>0\<close> or \<open>0.5\<close>) binary floating
  point computes the same, in single and in double precision.
\<close>

definition round_half_even :: "real \<Rightarrow> int" where
  "round_half_even x =
     (let f = \<lfloor>x\<rfloor>; d = x - of_int f
      in if d < 1 / 2 then f else if 1 / 2 < d then f + 1
         else if even f then f else f + 1)"

definition exact_round4 :: "pynum \<Rightarrow> pynum" where
  "exact_round4 x = (case x of
       Finite v \<Rightarrow> Finite (of_int (round_half_even (v * 10000)) / 10000)
     | PosInf \<Rightarrow> PosInf | NegInf \<Rightarrow> NegInf | NaN \<Rightarrow> NaN)"

definition doc_a :: document where
  "doc_a = \<lparr>page_content = ''x'',
     metadata = \<lparr>m_key = Some ''A'', m_source = None, m_size = None,
                 m_last_modified = Some (Datetime ''2024-01-01T00:00:00'')\<rparr>\<rparr>"

definition doc_b :: document where
  "doc_b = \<lparr>page_content = ''y'',
     metadata = \<lparr>m_key = Some ''B'', m_source = None, m_size = None,
                 m_last_modified = Some (Datetime ''2024-01-02T00:00:00'')\<rparr>\<rparr>"

definition ex_env :: "document list env" where
  "ex_env =
     \<lparr>load_documents = Inr [doc_a, doc_b],
      sha256 = (\<lambda>text. ''sha:'' @ text),
      split_documents = (\<lambda>docs. Inr docs),
      from_documents = (\<lambda>chunks.
        if chunks = [] then Inl (Exn (OtherException ''IndexError'') ''list index out of range'')
        else Inr chunks),
      merge_from = (\<lambda>base new. Inr (base @ new)),
      load_local = (\<lambda>d. case d of Saved ix \<Rightarrow> Inr ix
        | Unreadable \<Rightarrow> Inl (Exn (OtherException ''RuntimeError'') ''could not open index'')),
      similarity_search_with_score =
        (\<lambda>ix query k. Inr (take (nat k) (map (\<lambda>c. (c, Finite 1)) ix))),
      ntotal = (\<lambda>ix. Some (length ix)),
      dir_size = (\<lambda>d. 0),
      io_fault = (\<lambda>op t. None),
      torn_store = Unreadable,
      torn_hash_file = None,
      now = ''2024-01-03T00:00:00'',
      new_embeddings = None,
      fl = Finite,
      zero_division = Inl (Exn ZeroDivisionError ''float division by zero''),
      round4 = exact_round4,
      coerce = (\<lambda>threshold. threshold)\<rparr>"

definition ex_hashes :: "string \<rightharpoonup> jval" where
  "ex_hashes = [''A'' \<mapsto> JStr ''sha:x'', ''B'' \<mapsto> JStr ''sha:old'']"

text \<open>A service that has indexed \<open>A\<close> and an older \<open>B\<close>.\<close>

definition ex_indexed :: "document list service" where
  "ex_indexed =
     \<lparr>vector_store = Some [doc_a],
      store_dir = Some (Saved [doc_a]),
      hash_file = Some (HFile (Parsed (PDict ex_hashes)) ''2024-01-01T00:00:00''),
      clock = 0, trace = []\<rparr>"

text \<open>
  A step that leaves the service and its files as they are, but for the count of
  file-system operations.
\<close>

definition only_clock :: "('ix service, 'a) prog \<Rightarrow> bool" where
  "only_clock m = (\<forall>s. case m s of (r, s') \<Rightarrow> s' = s\<lparr>clock := clock s'\<rparr>)"

text \<open>The events a run added to the log.\<close>

definition new_events :: "'ix service \<Rightarrow> 'ix service \<Rightarrow> event list" where
  "new_events s s' = drop (length (trace s)) (trace s')"

text \<open>The events of the indexing steps, as opposed to those of persistence.\<close>

definition is_pipeline :: "event \<Rightarrow> bool" where
  "is_pipeline ev = (case ev of EvSaveLocal ok \<Rightarrow> False | EvWriteHashes ok \<Rightarrow> False
     | _ \<Rightarrow> True)"

text \<open>A hash file holding the JSON number \<open>5\<close>, and a loader that cannot reach S3.\<close>

definition ex_numeric :: "document list service" where
  "ex_numeric = ex_indexed\<lparr>hash_file := Some (HFile (Parsed PUnsized) ''2024-01-01T00:00:00'')\<rparr>"

definition ex_env_unreachable :: "document list env" where
  "ex_env_unreachable =
     ex_env\<lparr>load_documents := Inl (Exn (OtherException ''ConnectionError'') ''S3 unreachable'')\<rparr>"



definition ex_env_scores :: "document list env" where
  "ex_env_scores =
     ex_env\<lparr>similarity_search_with_score :=
       (\<lambda>ix query k. Inr [(doc_a, Finite 1), (doc_b, Finite 32767)])\<rparr>"


text \<open>Whether \<open>__init__\<close> finds the object at an address initialized.\<close>

definition is_initialized :: "'ix runtime \<Rightarrow> nat \<Rightarrow> bool" where
  "is_initialized rt a =
     (case obj_initialized (heap rt a) of None \<Rightarrow> cls_initialized rt | Some b \<Rightarrow> b)"

text \<open>The class as the module leaves it when imported, with an index saved on disk.\<close>

definition ex_runtime :: "document list runtime" where
  "ex_runtime =
     \<lparr>cls_instance = None, cls_initialized = False,
      heap = (\<lambda>a. \<lparr>obj_initialized = None, obj_vector_store = None\<rparr>),
      next_addr = 0, rt_store_dir = Some (Saved [doc_a]), rt_clock = 0, load_calls = 0\<rparr>"

text \<open>
  A hash file that still lists a document \<open>C\<close> no longer fetched, beside the current
  hashes of \<open>A\<close> and \<open>B\<close>; a service with that file and both documents indexed; the
  same service with no index in memory; and a disk that refuses the index.
\<close>

definition ex_stale_hashes :: "string \<rightharpoonup> jval" where
  "ex_stale_hashes =
     [''A'' \<mapsto> JStr ''sha:x'', ''B'' \<mapsto> JStr ''sha:y'', ''C'' \<mapsto> JStr ''sha:z'']"

definition ex_stale :: "document list service" where
  "ex_stale =
     \<lparr>vector_store = Some [doc_a, doc_b],
      store_dir = Some (Saved [doc_a, doc_b]),
      hash_file = Some (HFile (Parsed (PDict ex_stale_hashes)) ''2024-01-01T00:00:00''),
      clock = 0, trace = []\<rparr>"

definition ex_lost :: "document list service" where
  "ex_lost = ex_stale\<lparr>vector_store := None\<rparr>"

definition ex_env_disk_full :: "document list env" where
  "ex_env_disk_full =
     ex_env\<lparr>io_fault := (\<lambda>op t.
       if op = StoreSave then Some (Exn (OtherException ''OSError'') ''disk full'') else None)\<rparr>"

text \<open>
  The similarity computed for a distance, when the computation does not raise; and
  what is asked of an arithmetic for the bounds on the scores: rounding is monotone
  and keeps 0 and 1, as rounding to a binary floating-point format and rounding to
  four decimals do.
\<close>

definition sim_of :: "'ix env \<Rightarrow> pynum \<Rightarrow> pynum" where
  "sim_of env d = (case to_similarity env d of Inl e \<Rightarrow> NaN | Inr x \<Rightarrow> x)"

definition rounding_ok :: "(real \<Rightarrow> pynum) \<Rightarrow> bool" where
  "rounding_ok f =
     (f 0 = Finite 0 \<and> f 1 = Finite 1 \<and> (\<forall>x y. x \<le> y \<longrightarrow> num_ge (f y) (f x)))"

definition round4_ok :: "(pynum \<Rightarrow> pynum) \<Rightarrow> bool" where
  "round4_ok r =
     (r (Finite 0) = Finite 0 \<and> r (Finite 1) = Finite 1
      \<and> (\<forall>x y. num_ge y x \<longrightarrow> num_ge (r y) (r x)))"

text \<open>
  The hash file that a run writes: the current map of the documents the loader
  returned, classified against the previous map of line 94.
\<close>

definition commits :: "'ix env \<Rightarrow> bool \<Rightarrow> 'ix service \<Rightarrow> 'ix service \<Rightarrow> bool" where
  "commits env force_update s s' \<longleftrightarrow>
     (\<exists>documents prev new_docs kept_docs cur s1.
        load_documents env = Inr documents
      \<and> previous_hashes env force_update s = (Inr prev, s1)
      \<and> classify env prev documents ([], [], Map.empty) = Inr (new_docs, kept_docs, cur)
      \<and> hash_file s' = Some (written env cur))"

section \<open>Change-set classification\<close>

lemma record_hash_Some:
  "m_key (metadata d) = Some k \<Longrightarrow>
   record_hash env d cur = cur(k \<mapsto> sha256 env (page_content d))"
  by (simp add: record_hash_def fun_upd_def)

lemma record_hash_None: "m_key (metadata d) = None \<Longrightarrow> record_hash env d cur = cur"
  by (simp add: record_hash_def)

lemma dom_record_hash:
  "dom (record_hash env d cur) = dom cur \<union> {k. m_key (metadata d) = Some k}"
proof (cases "m_key (metadata d)")
  case None
  then show ?thesis by (simp add: record_hash_None)
next
  case (Some k)
  then show ?thesis by (simp add: record_hash_Some [OF Some])
qed

lemma record_hash_apply:
  "record_hash env d cur k =
     (if m_key (metadata d) = Some k then Some (sha256 env (page_content d)) else cur k)"
proof (cases "m_key (metadata d)")
  case None
  then show ?thesis by (simp add: record_hash_None)
next
  case (Some k')
  then show ?thesis by (simp add: record_hash_Some [OF Some])
qed

lemma classify_dict:
  "\<forall>d\<in>set docs. m_key (metadata d) \<noteq> None \<Longrightarrow>
   classify env (PDict prev) docs (new, kept, cur) =
     Inr (new @ filter (spec_to_process env prev) docs,
          kept @ filter (\<lambda>d. \<not> spec_to_process env prev d) docs,
          recorded env docs cur)"
proof (induction docs arbitrary: new kept cur)
  case Nil
  then show ?case by simp
next
  case (Cons d ds)
  then obtain k where k: "m_key (metadata d) = Some k" by auto
  from Cons.prems have rest: "\<forall>d\<in>set ds. m_key (metadata d) \<noteq> None" by simp
  have step: "classify env (PDict prev) (d # ds) (new, kept, cur) =
     (if prev k \<noteq> Some (JStr (sha256 env (page_content d)))
      then classify env (PDict prev) ds (new @ [d], kept, record_hash env d cur)
      else classify env (PDict prev) ds (new, kept @ [d], record_hash env d cur))"
    using k by (simp add: subscript_key_def py_get_def Let_def record_hash_def)
  have sp: "spec_to_process env prev d \<longleftrightarrow> prev k \<noteq> Some (JStr (sha256 env (page_content d)))"
    using k by (auto simp: spec_to_process_def)
  show ?case
    unfolding step by (simp add: sp Cons.IH [OF rest])
qed

lemma dom_recorded:
  "dom (recorded env docs cur) = dom cur \<union> {k. \<exists>d\<in>set docs. m_key (metadata d) = Some k}"
proof (induction docs arbitrary: cur)
  case Nil
  then show ?case by simp
next
  case (Cons d ds)
  show ?case
    by (simp add: Cons.IH dom_record_hash) blast
qed

lemma recorded_keeps:
  "\<forall>d\<in>set docs. m_key (metadata d) = Some k \<longrightarrow> sha256 env (page_content d) = h \<Longrightarrow>
   cur k = Some h \<Longrightarrow> recorded env docs cur k = Some h"
proof (induction docs arbitrary: cur)
  case Nil
  then show ?case by simp
next
  case (Cons d ds)
  have tl: "\<forall>d\<in>set ds. m_key (metadata d) = Some k \<longrightarrow> sha256 env (page_content d) = h"
    using Cons.prems(1) by simp
  have upd: "record_hash env d cur k = Some h"
    using Cons.prems by (simp add: record_hash_apply)
  show ?case
    using Cons.IH [of "record_hash env d cur", OF tl upd] by simp
qed

lemma recorded_same:
  "\<forall>d\<in>set docs. m_key (metadata d) = Some k \<longrightarrow> sha256 env (page_content d) = h \<Longrightarrow>
   \<exists>d\<in>set docs. m_key (metadata d) = Some k \<Longrightarrow> recorded env docs cur k = Some h"
proof (induction docs arbitrary: cur)
  case Nil
  then show ?case by simp
next
  case (Cons d ds)
  have tl: "\<forall>d\<in>set ds. m_key (metadata d) = Some k \<longrightarrow> sha256 env (page_content d) = h"
    using Cons.prems(1) by simp
  show ?case
  proof (cases "m_key (metadata d) = Some k")
    case True
    then have "sha256 env (page_content d) = h" using Cons.prems(1) by simp
    with True have "record_hash env d cur k = Some h"
      by (simp add: record_hash_apply)
    then show ?thesis
      using recorded_keeps [OF tl] by simp
  next
    case False
    with Cons.prems(2) have "\<exists>d\<in>set ds. m_key (metadata d) = Some k" by simp
    then show ?thesis
      using Cons.IH [OF tl] by simp
  qed
qed


lemma previous_hashes_force: "previous_hashes env True s = (Inr (PDict Map.empty), s)"
  by (simp add: previous_hashes_def returnM_def)

lemma spec_to_process_empty:
  "\<forall>d\<in>set docs. m_key (metadata d) \<noteq> None \<Longrightarrow>
   filter (spec_to_process env Map.empty) docs = docs"
  by (auto simp: spec_to_process_def filter_id_conv split: option.splits)

lemma previous_hashes_loaded:
  "previous_hashes env False s = load_previous_hashes env s"
  by (simp add: previous_hashes_def)

lemma load_previous_hashes_dict:
  assumes "hash_file s = Some (HFile (Parsed p) mt)"
    and "io_fault env HashExists (clock s) = None"
    and "io_fault env HashRead (Suc (clock s)) = None"
  shows "load_previous_hashes env s = (Inr p, s\<lparr>clock := Suc (Suc (clock s))\<rparr>)"
  using assms by (simp add: load_previous_hashes_def bindM_def io_def)

text \<open>The body of the run hands on what the classification found.\<close>

lemma process_body_classified:
  assumes keys: "\<forall>d\<in>set docs. m_key (metadata d) \<noteq> None"
    and load: "load_documents env = Inr docs" and ne: "docs \<noteq> []"
    and prev: "previous_hashes env force_update s = (Inr (PDict prev), s1)"
  shows "process_body env force_update s =
     (if filter (spec_to_process env prev) docs = [] \<and> \<not> force_update
      then bindM (get_stats env) (\<lambda>st.
             returnM (result True ''No changes detected. Vector store is up to date.'' st)) s1
      else ingest env force_update docs (filter (spec_to_process env prev) docs)
             (recorded env docs Map.empty) s1)"
proof -
  have cl: "classify env (PDict prev) docs ([], [], Map.empty) =
       Inr (filter (spec_to_process env prev) docs,
            filter (\<lambda>d. \<not> spec_to_process env prev d) docs, recorded env docs Map.empty)"
    using classify_dict [OF keys, of env prev "[]" "[]" Map.empty] by simp
  show ?thesis
    using load ne prev cl
    by (simp add: process_body_def bindM_def liftE_def)
qed

text \<open>
  Claim C1. For every list of fetched documents (each with a key) and every previous
  fingerprint map, the classification loop succeeds; the documents to process are
  exactly those whose key is absent from the previous map or whose stored hash differs
  from their own, in order, and the others are unchanged; every document's key is
  recorded in the current map, whatever its class, with the document's own hash when
  no document of the list has the same key and another content. With \<open>force_update\<close>
  the previous map is the empty one, read from nowhere, so every document is to be
  processed; without it the previous map is what the hash file holds. A run of the
  pipeline classifies the documents the loader returned against that map, and goes on
  with exactly the documents to process and the current map of all of them (or stops,
  when there is none to process and no \<open>force_update\<close>).
\<close>

theorem C1_change_set_classification:
  assumes keys: "\<forall>d\<in>set docs. m_key (metadata d) \<noteq> None"
  shows "classify env (PDict prev) docs ([], [], Map.empty) =
           Inr (filter (spec_to_process env prev) docs,
                filter (\<lambda>d. \<not> spec_to_process env prev d) docs,
                recorded env docs Map.empty)
   \<and> dom (recorded env docs Map.empty) = {k. \<exists>d\<in>set docs. m_key (metadata d) = Some k}
   \<and> (\<forall>d\<in>set docs. \<forall>k. m_key (metadata d) = Some k \<longrightarrow>
         (\<forall>d'\<in>set docs. m_key (metadata d') = Some k \<longrightarrow> page_content d' = page_content d) \<longrightarrow>
         recorded env docs Map.empty k = Some (sha256 env (page_content d)))
   \<and> previous_hashes env True s = (Inr (PDict Map.empty), s)
   \<and> filter (spec_to_process env Map.empty) docs = docs
   \<and> previous_hashes env False s = load_previous_hashes env s
   \<and> (\<forall>p mt. hash_file s = Some (HFile (Parsed (PDict p)) mt) \<longrightarrow>
         io_fault env HashExists (clock s) = None \<longrightarrow>
         io_fault env HashRead (Suc (clock s)) = None \<longrightarrow>
         previous_hashes env False s = (Inr (PDict p), s\<lparr>clock := Suc (Suc (clock s))\<rparr>))
   \<and> (\<forall>force_update s1. load_documents env = Inr docs \<longrightarrow> docs \<noteq> [] \<longrightarrow>
         previous_hashes env force_update s = (Inr (PDict prev), s1) \<longrightarrow>
         process_body env force_update s =
           (if filter (spec_to_process env prev) docs = [] \<and> \<not> force_update
            then bindM (get_stats env) (\<lambda>st.
                   returnM (result True
                     ''No changes detected. Vector store is up to date.'' st)) s1
            else ingest env force_update docs (filter (spec_to_process env prev) docs)
                   (recorded env docs Map.empty) s1))"
proof -
  have rec: "recorded env docs Map.empty k = Some (sha256 env (page_content d))"
    if "d \<in> set docs" "m_key (metadata d) = Some k"
       "\<forall>d'\<in>set docs. m_key (metadata d') = Some k \<longrightarrow> page_content d' = page_content d"
    for d k
  proof (rule recorded_same)
    show "\<forall>d'\<in>set docs. m_key (metadata d') = Some k \<longrightarrow>
            sha256 env (page_content d') = sha256 env (page_content d)"
      using that(3) by simp
    show "\<exists>d\<in>set docs. m_key (metadata d) = Some k"
      using that(1,2) by blast
  qed
  show ?thesis
  proof (intro conjI allI impI)
    show "classify env (PDict prev) docs ([], [], Map.empty) =
       Inr (filter (spec_to_process env prev) docs,
            filter (\<lambda>d. \<not> spec_to_process env prev d) docs, recorded env docs Map.empty)"
      using classify_dict [OF keys, of env prev "[]" "[]" Map.empty] by simp
    show "dom (recorded env docs Map.empty) = {k. \<exists>d\<in>set docs. m_key (metadata d) = Some k}"
      by (simp add: dom_recorded)
    show "\<forall>d\<in>set docs. \<forall>k. m_key (metadata d) = Some k \<longrightarrow>
         (\<forall>d'\<in>set docs. m_key (metadata d') = Some k \<longrightarrow> page_content d' = page_content d) \<longrightarrow>
         recorded env docs Map.empty k = Some (sha256 env (page_content d))"
      using rec by blast
    show "previous_hashes env True s = (Inr (PDict Map.empty), s)"
      by (rule previous_hashes_force)
    show "filter (spec_to_process env Map.empty) docs = docs"
      by (rule spec_to_process_empty [OF keys])
    show "previous_hashes env False s = load_previous_hashes env s"
      by (rule previous_hashes_loaded)
  next
    fix p mt
    assume "hash_file s = Some (HFile (Parsed (PDict p)) mt)"
      "io_fault env HashExists (clock s) = None"
      "io_fault env HashRead (Suc (clock s)) = None"
    then show "previous_hashes env False s = (Inr (PDict p), s\<lparr>clock := Suc (Suc (clock s))\<rparr>)"
      by (simp add: previous_hashes_loaded load_previous_hashes_dict)
  next
    fix force_update s1
    assume "load_documents env = Inr docs" "docs \<noteq> []"
      "previous_hashes env force_update s = (Inr (PDict prev), s1)"
    then show "process_body env force_update s =
           (if filter (spec_to_process env prev) docs = [] \<and> \<not> force_update
            then bindM (get_stats env) (\<lambda>st.
                   returnM (result True
                     ''No changes detected. Vector store is up to date.'' st)) s1
            else ingest env force_update docs (filter (spec_to_process env prev) docs)
                   (recorded env docs Map.empty) s1)"
      by (rule process_body_classified [OF keys])
  qed
qed

theorem C1_change_set_classification_witness:
  "classify ex_env (PDict ex_hashes) [doc_a, doc_b] ([], [], Map.empty) =
     Inr ([doc_b], [doc_a], recorded ex_env [doc_a, doc_b] Map.empty)
   \<and> recorded ex_env [doc_a, doc_b] Map.empty ''A'' = Some ''sha:x''
   \<and> recorded ex_env [doc_a, doc_b] Map.empty ''B'' = Some ''sha:y''
   \<and> filter (spec_to_process ex_env Map.empty) [doc_a, doc_b] = [doc_a, doc_b]
   \<and> previous_hashes ex_env False ex_indexed =
       (Inr (PDict ex_hashes), ex_indexed\<lparr>clock := Suc (Suc (clock ex_indexed))\<rparr>)
   \<and> process_body ex_env False ex_indexed =
       ingest ex_env False [doc_a, doc_b] [doc_b] (recorded ex_env [doc_a, doc_b] Map.empty)
         (ex_indexed\<lparr>clock := Suc (Suc (clock ex_indexed))\<rparr>)"
proof -
  have keys: "\<forall>d\<in>set [doc_a, doc_b]. m_key (metadata d) \<noteq> None"
    by (simp add: doc_a_def doc_b_def)
  have a: "spec_to_process ex_env ex_hashes doc_a = False"
    by (simp add: spec_to_process_def doc_a_def ex_hashes_def ex_env_def)
  have b: "spec_to_process ex_env ex_hashes doc_b = True"
    by (simp add: spec_to_process_def doc_b_def ex_hashes_def ex_env_def)
  have ka: "m_key (metadata doc_a) = Some ''A''" and kb: "m_key (metadata doc_b) = Some ''B''"
    by (simp_all add: doc_a_def doc_b_def)
  have ca: "sha256 ex_env (page_content doc_a) = ''sha:x''"
    and cb: "sha256 ex_env (page_content doc_b) = ''sha:y''"
    by (simp_all add: doc_a_def doc_b_def ex_env_def)
  have stored: "hash_file ex_indexed = Some (HFile (Parsed (PDict ex_hashes)) ''2024-01-01T00:00:00'')"
    by (simp add: ex_indexed_def)
  have io: "io_fault ex_env HashExists (clock ex_indexed) = None"
    "io_fault ex_env HashRead (Suc (clock ex_indexed)) = None"
    by (simp_all add: ex_env_def)
  have load: "load_documents ex_env = Inr [doc_a, doc_b]"
    by (simp add: ex_env_def)
  note c1 = C1_change_set_classification [OF keys, of ex_env ex_hashes ex_indexed]
  have prev: "previous_hashes ex_env False ex_indexed =
       (Inr (PDict ex_hashes), ex_indexed\<lparr>clock := Suc (Suc (clock ex_indexed))\<rparr>)"
    using c1 stored io by blast
  have body: "process_body ex_env False ex_indexed =
       ingest ex_env False [doc_a, doc_b] [doc_b] (recorded ex_env [doc_a, doc_b] Map.empty)
         (ex_indexed\<lparr>clock := Suc (Suc (clock ex_indexed))\<rparr>)"
  proof -
    from c1 load prev have "process_body ex_env False ex_indexed =
           (if filter (spec_to_process ex_env ex_hashes) [doc_a, doc_b] = [] \<and> \<not> False
            then bindM (get_stats ex_env) (\<lambda>st.
                   returnM (result True
                     ''No changes detected. Vector store is up to date.'' st))
                   (ex_indexed\<lparr>clock := Suc (Suc (clock ex_indexed))\<rparr>)
            else ingest ex_env False [doc_a, doc_b]
                   (filter (spec_to_process ex_env ex_hashes) [doc_a, doc_b])
                   (recorded ex_env [doc_a, doc_b] Map.empty)
                   (ex_indexed\<lparr>clock := Suc (Suc (clock ex_indexed))\<rparr>))"
      by blast
    then show ?thesis by (simp add: a b)
  qed
  have rest: "classify ex_env (PDict ex_hashes) [doc_a, doc_b] ([], [], Map.empty) =
     Inr ([doc_b], [doc_a], recorded ex_env [doc_a, doc_b] Map.empty)
   \<and> recorded ex_env [doc_a, doc_b] Map.empty ''A'' = Some ''sha:x''
   \<and> recorded ex_env [doc_a, doc_b] Map.empty ''B'' = Some ''sha:y''
   \<and> filter (spec_to_process ex_env Map.empty) [doc_a, doc_b] = [doc_a, doc_b]"
    using c1 by (simp add: a b ka kb ca cb del: classify.simps recorded.simps)
  from rest prev body show ?thesis by blast
qed

section \<open>Steps and what they leave unchanged\<close>

lemma bindM_E:
  assumes "bindM m f s = (r, s'')"
  obtains (raised) e where "m s = (Inl e, s'')" "r = Inl e"
        | (returned) a s' where "m s = (Inr a, s')" "f a s' = (r, s'')"
  using assms by (auto simp: bindM_def split: prod.splits sum.splits)

lemma bindM_Inr: "m s = (Inr a, s') \<Longrightarrow> bindM m f s = f a s'"
  by (simp add: bindM_def)

lemma bindM_Inl: "m s = (Inl e, s') \<Longrightarrow> bindM m f s = (Inl e, s')"
  by (simp add: bindM_def)

lemma only_clockD: "only_clock m \<Longrightarrow> m s = (r, s') \<Longrightarrow> s' = s\<lparr>clock := clock s'\<rparr>"
  by (auto simp: only_clock_def split: prod.splits)

lemma only_clockI: "(\<And>s r s'. m s = (r, s') \<Longrightarrow> s' = s\<lparr>clock := clock s'\<rparr>) \<Longrightarrow> only_clock m"
  by (auto simp: only_clock_def split: prod.splits)

lemma only_clock_returnM: "only_clock (returnM a)"
  by (simp add: only_clock_def returnM_def)

lemma only_clock_raiseM: "only_clock (raiseM e)"
  by (simp add: only_clock_def raiseM_def)

lemma only_clock_liftE: "only_clock (liftE x)"
  by (simp add: only_clock_def liftE_def)

lemma only_clock_io: "only_clock (io env op)"
  by (simp add: only_clock_def io_def)

lemma only_clock_bindM:
  assumes m: "only_clock m" and f: "\<And>a. only_clock (f a)"
  shows "only_clock (bindM m f)"
proof (rule only_clockI)
  fix s r s'
  assume run: "bindM m f s = (r, s')"
  then show "s' = s\<lparr>clock := clock s'\<rparr>"
  proof (cases rule: bindM_E)
    case (raised e)
    then show ?thesis using only_clockD [OF m] by blast
  next
    case (returned a s1)
    have 1: "s1 = s\<lparr>clock := clock s1\<rparr>" using only_clockD [OF m returned(1)] .
    have 2: "s' = s1\<lparr>clock := clock s'\<rparr>" using only_clockD [OF f returned(2)] .
    show ?thesis by (subst 2, subst 1) simp
  qed
qed

lemma only_clock_catchM:
  assumes m: "only_clock m" and h: "\<And>e. only_clock (h e)"
  shows "only_clock (catchM m h)"
proof (rule only_clockI)
  fix s r s'
  assume run: "catchM m h s = (r, s')"
  obtain r1 s1 where m1: "m s = (r1, s1)" by (cases "m s")
  have 1: "s1 = s\<lparr>clock := clock s1\<rparr>" using only_clockD [OF m m1] .
  show "s' = s\<lparr>clock := clock s'\<rparr>"
  proof (cases r1)
    case (Inl e)
    with run m1 have "h e s1 = (r, s')" by (simp add: catchM_def)
    then have 2: "s' = s1\<lparr>clock := clock s'\<rparr>" using only_clockD [OF h] by blast
    show ?thesis by (subst 2, subst 1) simp
  next
    case (Inr a)
    with run m1 have "s' = s1" by (simp add: catchM_def)
    with 1 show ?thesis by simp
  qed
qed

lemma only_clock_case_state:
  "(\<And>s0. only_clock (f s0)) \<Longrightarrow> only_clock (\<lambda>s. f s s)"
  by (auto simp: only_clock_def split: prod.splits)

lemma only_clock_load_previous_hashes: "only_clock (load_previous_hashes env)"
  unfolding load_previous_hashes_def
  apply (rule only_clock_bindM [OF only_clock_io])
  apply (rule only_clockI)
  apply (auto simp: io_def split: option.splits hfile.splits hcontent.splits prod.splits sum.splits)
  done

lemma only_clock_previous_hashes: "only_clock (previous_hashes env force_update)"
  by (simp add: previous_hashes_def only_clock_returnM only_clock_load_previous_hashes)

lemma only_clock_hash_mtime: "only_clock (hash_mtime env)"
  unfolding hash_mtime_def
  apply (rule only_clock_bindM [OF only_clock_io])
  apply (rule only_clockI)
  apply (auto simp: io_def bindM_def returnM_def split: option.splits hfile.splits prod.splits sum.splits)
  done

lemma only_clock_store_size: "only_clock (store_size env)"
  unfolding store_size_def
  apply (rule only_clock_bindM [OF only_clock_io])
  apply (rule only_clockI)
  apply (auto simp: io_def bindM_def returnM_def catchM_def split: option.splits prod.splits sum.splits)
  done

lemma only_clock_get_stats_body: "only_clock (get_stats_body env)"
  unfolding get_stats_body_def
  by (intro only_clock_bindM only_clock_load_previous_hashes only_clock_liftE
      only_clock_hash_mtime only_clock_store_size only_clock_returnM)
     (simp add: only_clock_def)

lemma only_clock_get_stats: "only_clock (get_stats env)"
  unfolding get_stats_def
  by (intro only_clock_catchM only_clock_get_stats_body only_clock_returnM)

lemma get_stats_returns: "\<exists>st s'. get_stats env s = (Inr st, s')"
  by (cases "get_stats_body env s")
     (auto simp: get_stats_def catchM_def returnM_def split: sum.splits)

section \<open>Statistics never raise\<close>

lemma get_stats_caught:
  "get_stats_body env s = (Inl e, s') \<Longrightarrow> get_stats env s = (Inr zero_stats, s')"
  by (simp add: get_stats_def catchM_def returnM_def)

lemma get_stats_passed:
  "get_stats_body env s = (Inr st, s') \<Longrightarrow> get_stats env s = (Inr st, s')"
  by (simp add: get_stats_def catchM_def)

lemma load_previous_hashes_unparsable:
  "hash_file s = Some (HFile Unparsable mt) \<Longrightarrow> io_fault env HashExists (clock s) = None \<Longrightarrow>
   load_previous_hashes env s = (Inr (PDict Map.empty), s\<lparr>clock := Suc (Suc (clock s))\<rparr>)"
  by (simp add: load_previous_hashes_def bindM_def io_def split: option.splits)

text \<open>
  Claim C9. In every state and every environment, whatever the files hold and whichever
  file-system operation fails, \<open>get_stats\<close> returns statistics and raises nothing, and
  it changes nothing of the service; when the body of its \<open>try\<close> raises, the
  statistics returned are the zeroed ones; otherwise they are the body's. A hash file
  that cannot be parsed is not a failure of the body: it counts as no document.
\<close>

theorem C9_get_stats_total:
  "(\<exists>st s'. get_stats env s = (Inr st, s') \<and> s' = s\<lparr>clock := clock s'\<rparr>)
   \<and> (\<forall>e s'. get_stats_body env s = (Inl e, s') \<longrightarrow> get_stats env s = (Inr zero_stats, s'))
   \<and> (\<forall>st s'. get_stats_body env s = (Inr st, s') \<longrightarrow> get_stats env s = (Inr st, s'))
   \<and> (\<forall>mt. hash_file s = Some (HFile Unparsable mt) \<longrightarrow>
         io_fault env HashExists (clock s) = None \<longrightarrow>
         (\<exists>s'. load_previous_hashes env s = (Inr (PDict Map.empty), s')))"
proof (intro conjI allI impI)
  obtain st s' where run: "get_stats env s = (Inr st, s')"
    using get_stats_returns by blast
  have "s' = s\<lparr>clock := clock s'\<rparr>"
    using only_clockD [OF only_clock_get_stats run] .
  with run show "\<exists>st s'. get_stats env s = (Inr st, s') \<and> s' = s\<lparr>clock := clock s'\<rparr>"
    by blast
next
  fix e s' assume "get_stats_body env s = (Inl e, s')"
  then show "get_stats env s = (Inr zero_stats, s')" by (rule get_stats_caught)
next
  fix st s' assume "get_stats_body env s = (Inr st, s')"
  then show "get_stats env s = (Inr st, s')" by (rule get_stats_passed)
next
  fix mt
  assume "hash_file s = Some (HFile Unparsable mt)" "io_fault env HashExists (clock s) = None"
  then show "\<exists>s'. load_previous_hashes env s = (Inr (PDict Map.empty), s')"
    using load_previous_hashes_unparsable by blast
qed

lemma ex_numeric_body:
  "get_stats_body ex_env ex_numeric =
     (Inl (Exn TypeError ''object has no len()''), ex_numeric\<lparr>clock := 2\<rparr>)"
  by (simp add: get_stats_body_def load_previous_hashes_def bindM_def io_def liftE_def
      py_len_def ex_env_def ex_numeric_def ex_indexed_def)

theorem C9_get_stats_total_witness:
  "get_stats_body ex_env ex_numeric =
     (Inl (Exn TypeError ''object has no len()''), ex_numeric\<lparr>clock := 2\<rparr>)
   \<and> get_stats ex_env ex_numeric = (Inr zero_stats, ex_numeric\<lparr>clock := 2\<rparr>)"
  using C9_get_stats_total [of ex_env ex_numeric] ex_numeric_body by simp

section \<open>The ingest pipeline never raises\<close>

lemma process_embeddings_caught:
  assumes "process_body env force_update s = (Inl e, s1)"
  shows "\<exists>st s'. get_stats env s1 = (Inr st, s') \<and>
     process_embeddings env force_update s =
       (Inr (result False (''Error processing embeddings: '' @ exn_msg e) st), s')"
proof -
  obtain st s' where st: "get_stats env s1 = (Inr st, s')"
    using get_stats_returns by blast
  then show ?thesis
    using assms by (simp add: process_embeddings_def catchM_def bindM_def returnM_def)
qed

lemma process_embeddings_passed:
  "process_body env force_update s = (Inr r, s') \<Longrightarrow>
   process_embeddings env force_update s = (Inr r, s')"
  by (simp add: process_embeddings_def catchM_def)

lemma process_body_load_raises:
  "load_documents env = Inl e \<Longrightarrow> process_body env force_update s = (Inl e, s)"
  by (simp add: process_body_def bindM_def liftE_def)

text \<open>
  Claim C3. For every environment, flag and state, \<open>process_embeddings\<close> returns a
  result and raises nothing; whenever a step of the body of its \<open>try\<close> raises, the
  result has \<open>success = False\<close>, the exception's message after the prefix
  \<open>Error processing embeddings: \<close>, and the statistics of the state the failure left;
  in particular when the loader raises.
\<close>

theorem C3_process_never_raises:
  "(\<exists>r s'. process_embeddings env force_update s = (Inr r, s'))
   \<and> (\<forall>e s1. process_body env force_update s = (Inl e, s1) \<longrightarrow>
        (\<exists>st s'. get_stats env s1 = (Inr st, s') \<and>
           process_embeddings env force_update s =
             (Inr \<lparr>success = False,
                   message = ''Error processing embeddings: '' @ exn_msg e,
                   stats = st\<rparr>, s')))
   \<and> (\<forall>e. load_documents env = Inl e \<longrightarrow>
        (\<exists>st s'. process_embeddings env force_update s =
             (Inr \<lparr>success = False,
                   message = ''Error processing embeddings: '' @ exn_msg e,
                   stats = st\<rparr>, s')))"
proof (intro conjI allI impI)
  obtain r0 s0 where body: "process_body env force_update s = (r0, s0)"
    by (cases "process_body env force_update s")
  show "\<exists>r s'. process_embeddings env force_update s = (Inr r, s')"
  proof (cases r0)
    case (Inl e)
    with body show ?thesis using process_embeddings_caught by blast
  next
    case (Inr r)
    with body show ?thesis using process_embeddings_passed by blast
  qed
next
  fix e s1 assume "process_body env force_update s = (Inl e, s1)"
  then show "\<exists>st s'. get_stats env s1 = (Inr st, s') \<and>
           process_embeddings env force_update s =
             (Inr \<lparr>success = False,
                   message = ''Error processing embeddings: '' @ exn_msg e,
                   stats = st\<rparr>, s')"
    using process_embeddings_caught [of env force_update s e s1] by (simp add: result_def)
next
  fix e assume "load_documents env = Inl e"
  then have "process_body env force_update s = (Inl e, s)"
    by (rule process_body_load_raises)
  then show "\<exists>st s'. process_embeddings env force_update s =
             (Inr \<lparr>success = False,
                   message = ''Error processing embeddings: '' @ exn_msg e,
                   stats = st\<rparr>, s')"
    using process_embeddings_caught [of env force_update s e s] by (auto simp: result_def)
qed

theorem C3_process_never_raises_witness:
  "load_documents ex_env_unreachable = Inl (Exn (OtherException ''ConnectionError'') ''S3 unreachable'')
   \<and> (\<exists>st s'. process_embeddings ex_env_unreachable False ex_indexed =
         (Inr \<lparr>success = False,
               message = ''Error processing embeddings: S3 unreachable'',
               stats = st\<rparr>, s'))"
proof -
  have l: "load_documents ex_env_unreachable =
      Inl (Exn (OtherException ''ConnectionError'') ''S3 unreachable'')"
    by (simp add: ex_env_unreachable_def)
  show ?thesis
    using C3_process_never_raises [of ex_env_unreachable False ex_indexed] l by simp
qed

section \<open>The query pipeline\<close>


lemma num_ge_Finite_D: "num_ge x (Finite a) \<Longrightarrow> x = PosInf \<or> (\<exists>v. x = Finite v \<and> a \<le> v)"
  by (cases x) simp_all

lemma num_le_Finite_D: "num_ge (Finite a) x \<Longrightarrow> x = NegInf \<or> (\<exists>v. x = Finite v \<and> v \<le> a)"
  by (cases x) simp_all

lemma sim_of_Inr: "to_similarity env d = Inr x \<Longrightarrow> sim_of env d = x"
  by (simp add: sim_of_def)

lemma search_loop_filter:
  "\<forall>(doc, d)\<in>set results. \<exists>x. to_similarity env d = Inr x \<Longrightarrow>
   search_loop env t results chunks =
     Inr (chunks @ map (\<lambda>(doc, d). to_chunk env doc (sim_of env d))
                     (filter (\<lambda>(doc, d). num_ge (sim_of env d) (coerce env t)) results))"
proof (induction results arbitrary: chunks)
  case Nil
  then show ?case by simp
next
  case (Cons r rs)
  obtain doc d where r: "r = (doc, d)" by (cases r)
  from Cons.prems r obtain x where x: "to_similarity env d = Inr x"
    and rest: "\<forall>(doc, d)\<in>set rs. \<exists>x. to_similarity env d = Inr x"
    by auto
  show ?case
    by (simp add: r x sim_of_Inr [OF x] Cons.IH [OF rest])
qed





lemma search_loop_run:
  "vector_store s = Some ix \<Longrightarrow> similarity_search_with_score env ix q k = Inr results \<Longrightarrow>
   search env q k t (Built s) =
     (case search_loop env t results [] of Inl e \<Rightarrow> Inl (search_error e)
      | Inr chunks \<Rightarrow> Inr chunks)"
  by (simp add: search_def)

lemma search_ok:
  assumes "vector_store s = Some ix"
    and "similarity_search_with_score env ix q k = Inr results"
    and "\<forall>(doc, d)\<in>set results. \<exists>x. to_similarity env d = Inr x"
  shows "search env q k t (Built s) =
     Inr (map (\<lambda>(doc, d). to_chunk env doc (sim_of env d))
              (filter (\<lambda>(doc, d). num_ge (sim_of env d) (coerce env t)) results))"
  using assms by (simp add: search_loop_run search_loop_filter)







text \<open>Bounds, for a distance that is not negative.\<close>

lemma similarity_bounds:
  assumes f: "rounding_ok (fl env)" and v: "0 \<le> v"
  shows "\<exists>x. to_similarity env (Finite v) = Inr x
     \<and> num_ge x (Finite 0) \<and> num_ge (Finite 1) x"
proof -
  from f have f0: "fl env 0 = Finite 0" and f1: "fl env 1 = Finite 1"
    and mono: "\<And>x y. x \<le> y \<Longrightarrow> num_ge (fl env y) (fl env x)"
    by (simp_all add: rounding_ok_def)
  have "num_ge (fl env (1 + v)) (Finite 1)"
    using mono [of 1 "1 + v"] v f1 by simp
  from num_ge_Finite_D [OF this] show ?thesis
  proof
    assume "fl env (1 + v) = PosInf"
    then show ?thesis
      by (simp add: to_similarity_def one_plus_def one_over_def)
  next
    assume "\<exists>w. fl env (1 + v) = Finite w \<and> 1 \<le> w"
    then obtain w where w: "fl env (1 + v) = Finite w" "1 \<le> w" by blast
    then have q: "0 \<le> 1 / w" "1 / w \<le> 1" by simp_all
    have "num_ge (fl env (1 / w)) (Finite 0)" "num_ge (Finite 1) (fl env (1 / w))"
      using mono [OF q(1)] mono [OF q(2)] f0 f1 by simp_all
    with w show ?thesis
      by (simp add: to_similarity_def one_plus_def one_over_def)
  qed
qed

lemma round4_bounds:
  assumes r: "round4_ok (round4 env)" and x: "num_ge x (Finite 0)" "num_ge (Finite 1) x"
  shows "num_ge (round4 env x) (Finite 0) \<and> num_ge (Finite 1) (round4 env x)"
proof -
  from r have r0: "round4 env (Finite 0) = Finite 0" and r1: "round4 env (Finite 1) = Finite 1"
    and mono: "\<And>x y. num_ge y x \<Longrightarrow> num_ge (round4 env y) (round4 env x)"
    by (simp_all add: round4_ok_def)
  show ?thesis
    using mono [OF x(1)] mono [OF x(2)] r0 r1 by simp
qed


lemma ex_coerce: "coerce ex_env t = t \<and> coerce ex_env_scores t = t"
  by (simp add: ex_env_scores_def ex_env_def)

lemma ex_scores_engine:
  "vector_store ex_indexed = Some [doc_a] \<and>
   similarity_search_with_score ex_env_scores [doc_a] ''q'' 5 =
     Inr [(doc_a, Finite 1), (doc_b, Finite 32767)]"
  by (simp add: ex_indexed_def ex_env_scores_def ex_env_def)

lemma ex_scores_similarity:
  "to_similarity ex_env_scores (Finite 1) = Inr (Finite (1 / 2)) \<and>
   to_similarity ex_env_scores (Finite 32767) = Inr (Finite (1 / 32768))"
  by (simp add: to_similarity_def one_plus_def one_over_def ex_env_scores_def ex_env_def)

lemma ex_scores_sim_of:
  "sim_of ex_env_scores (Finite 1) = Finite (1 / 2) \<and>
   sim_of ex_env_scores (Finite 32767) = Finite (1 / 32768)"
  using ex_scores_similarity by (simp add: sim_of_def)

lemma ex_scores_computed:
  "\<forall>(doc, d)\<in>set [(doc_a, Finite 1), (doc_b, Finite 32767)].
     \<exists>x. to_similarity ex_env_scores d = Inr x"
  using ex_scores_similarity by simp


text \<open>
  Claim C5, as the code has it. For results whose distances are finite and not
  negative, as an L2 engine returns them, the similarity compared with the threshold is
  the value the score's arithmetic computes for \<open>1 / (1 + distance)\<close>, and the score
  of a returned result is \<open>round(similarity, 4)\<close>, not the similarity itself. In an
  arithmetic whose roundings are monotone and keep 0 and 1, both lie between 0 and 1.
\<close>

theorem C5_score_bounds:
  assumes ix: "vector_store s = Some ix"
    and eng: "similarity_search_with_score env ix q k = Inr results"
    and nonneg: "\<forall>(doc, d)\<in>set results. \<exists>v. d = Finite v \<and> 0 \<le> v"
    and f: "rounding_ok (fl env)" and r: "round4_ok (round4 env)"
  shows "search env q k t (Built s) =
       Inr (map (\<lambda>(doc, d). to_chunk env doc (sim_of env d))
                (filter (\<lambda>(doc, d). num_ge (sim_of env d) (coerce env t)) results))
   \<and> (\<forall>(doc, d)\<in>set results.
         to_similarity env d = Inr (sim_of env d)
       \<and> (\<exists>v. d = Finite v \<and> to_similarity env d = one_over env (fl env (1 + v)))
       \<and> num_ge (sim_of env d) (Finite 0) \<and> num_ge (Finite 1) (sim_of env d)
       \<and> score (to_chunk env doc (sim_of env d)) = Some (round4 env (sim_of env d))
       \<and> num_ge (round4 env (sim_of env d)) (Finite 0)
       \<and> num_ge (Finite 1) (round4 env (sim_of env d)))"
proof
  have each: "to_similarity env d = Inr (sim_of env d)
       \<and> (\<exists>v. d = Finite v \<and> to_similarity env d = one_over env (fl env (1 + v)))
       \<and> num_ge (sim_of env d) (Finite 0) \<and> num_ge (Finite 1) (sim_of env d)
       \<and> score (to_chunk env doc (sim_of env d)) = Some (round4 env (sim_of env d))
       \<and> num_ge (round4 env (sim_of env d)) (Finite 0)
       \<and> num_ge (Finite 1) (round4 env (sim_of env d))"
    if "(doc, d) \<in> set results" for doc d
  proof -
    from nonneg that obtain v where v: "d = Finite v" "0 \<le> v" by auto
    from similarity_bounds [OF f v(2)] obtain x where
      x: "to_similarity env (Finite v) = Inr x" "num_ge x (Finite 0)" "num_ge (Finite 1) x"
      by blast
    have sx: "sim_of env d = x"
      using x(1) v(1) by (simp add: sim_of_def)
    have formula: "to_similarity env d = one_over env (fl env (1 + v))"
      using v(1) by (simp add: to_similarity_def one_plus_def)
    have c1: "to_similarity env d = Inr (sim_of env d)"
      using x(1) v(1) sx by simp
    have c2: "\<exists>v. d = Finite v \<and> to_similarity env d = one_over env (fl env (1 + v))"
      using v(1) formula by blast
    have c3: "num_ge (sim_of env d) (Finite 0)" "num_ge (Finite 1) (sim_of env d)"
      using x(2,3) sx by simp_all
    have c4: "score (to_chunk env doc (sim_of env d)) = Some (round4 env (sim_of env d))"
      by (simp add: to_chunk_def)
    have c5: "num_ge (round4 env (sim_of env d)) (Finite 0)"
      "num_ge (Finite 1) (round4 env (sim_of env d))"
      using round4_bounds [OF r x(2) x(3)] sx by simp_all
    from c1 c2 c3 c4 c5 show ?thesis by (intro conjI)
  qed
  show "\<forall>(doc, d)\<in>set results.
         to_similarity env d = Inr (sim_of env d)
       \<and> (\<exists>v. d = Finite v \<and> to_similarity env d = one_over env (fl env (1 + v)))
       \<and> num_ge (sim_of env d) (Finite 0) \<and> num_ge (Finite 1) (sim_of env d)
       \<and> score (to_chunk env doc (sim_of env d)) = Some (round4 env (sim_of env d))
       \<and> num_ge (round4 env (sim_of env d)) (Finite 0)
       \<and> num_ge (Finite 1) (round4 env (sim_of env d))"
  proof (clarify)
    fix doc d
    assume "(doc, d) \<in> set results"
    then show "to_similarity env d = Inr (sim_of env d)
       \<and> (\<exists>v. d = Finite v \<and> to_similarity env d = one_over env (fl env (1 + v)))
       \<and> num_ge (sim_of env d) (Finite 0) \<and> num_ge (Finite 1) (sim_of env d)
       \<and> score (to_chunk env doc (sim_of env d)) = Some (round4 env (sim_of env d))
       \<and> num_ge (round4 env (sim_of env d)) (Finite 0)
       \<and> num_ge (Finite 1) (round4 env (sim_of env d))"
      by (rule each)
  qed
  have "\<forall>(doc, d)\<in>set results. \<exists>x. to_similarity env d = Inr x"
  proof (clarify)
    fix doc d
    assume "(doc, d) \<in> set results"
    from each [OF this] show "\<exists>x. to_similarity env d = Inr x"
      by (intro exI [of _ "sim_of env d"]) simp
  qed
  then show "search env q k t (Built s) =
       Inr (map (\<lambda>(doc, d). to_chunk env doc (sim_of env d))
                (filter (\<lambda>(doc, d). num_ge (sim_of env d) (coerce env t)) results))"
    by (rule search_ok [OF ix eng])
qed

lemma round_half_even_int: "round_half_even (of_int n) = n"
  by (simp add: round_half_even_def Let_def)

lemma round_half_even_mono:
  assumes "x \<le> y"
  shows "round_half_even x \<le> round_half_even y"
proof (cases "\<lfloor>x\<rfloor> = \<lfloor>y\<rfloor>")
  case True
  with assms have "x - of_int \<lfloor>x\<rfloor> \<le> y - of_int \<lfloor>y\<rfloor>" by simp
  with True show ?thesis
    by (auto simp: round_half_even_def Let_def)
next
  case False
  have "\<lfloor>x\<rfloor> \<le> \<lfloor>y\<rfloor>" using assms by (rule floor_mono)
  with False have "\<lfloor>x\<rfloor> + 1 \<le> \<lfloor>y\<rfloor>" by simp
  moreover have "round_half_even x \<le> \<lfloor>x\<rfloor> + 1" "\<lfloor>y\<rfloor> \<le> round_half_even y"
    by (simp_all add: round_half_even_def Let_def)
  ultimately show ?thesis by linarith
qed

lemma exact_round4_ok: "round4_ok exact_round4"
proof -
  have z: "exact_round4 (Finite 0) = Finite 0"
    using round_half_even_int [of 0] by (simp add: exact_round4_def)
  have o: "exact_round4 (Finite 1) = Finite 1"
    using round_half_even_int [of 10000] by (simp add: exact_round4_def)
  have m: "num_ge (exact_round4 y) (exact_round4 x)" if "num_ge y x" for x y
  proof (cases x; cases y)
    fix a b assume xy: "x = Finite a" "y = Finite b"
    with that have "a * 10000 \<le> b * 10000" by simp
    from round_half_even_mono [OF this] xy show ?thesis
      by (simp add: exact_round4_def divide_right_mono)
  qed (use that in \<open>simp_all add: exact_round4_def\<close>)
  from z o m show ?thesis
    by (simp add: round4_ok_def)
qed

lemma ex_arithmetic_ok: "rounding_ok (fl ex_env) \<and> round4_ok (round4 ex_env)"
  using exact_round4_ok by (simp add: rounding_ok_def ex_env_def)

lemma exact_round4_half: "exact_round4 (Finite (1 / 2)) = Finite (1 / 2)"
proof -
  have "round_half_even 5000 = 5000"
    using round_half_even_int [of 5000] by simp
  then show ?thesis by (simp add: exact_round4_def)
qed

lemma exact_round4_small: "exact_round4 (Finite (1 / 32768)) = Finite 0"
proof -
  have "\<lfloor>10000 / 32768 :: real\<rfloor> = 0" by linarith
  then have "round_half_even (10000 / 32768) = 0"
    by (simp add: round_half_even_def Let_def)
  then show ?thesis by (simp add: exact_round4_def)
qed

theorem C5_score_bounds_witness:
  "search ex_env ''q'' 5 (Finite 0) (Built ex_indexed) =
     Inr [to_chunk ex_env doc_a (Finite (1 / 2))]
   \<and> to_similarity ex_env (Finite 1) = Inr (Finite (1 / 2))
   \<and> score (to_chunk ex_env doc_a (Finite (1 / 2))) = Some (Finite (1 / 2))
   \<and> num_ge (Finite (1 / 2)) (Finite 0) \<and> num_ge (Finite 1) (Finite (1 / 2))"
proof -
  have ix: "vector_store ex_indexed = Some [doc_a]"
    by (simp add: ex_indexed_def)
  have eng: "similarity_search_with_score ex_env [doc_a] ''q'' 5 = Inr [(doc_a, Finite 1)]"
    by (simp add: ex_env_def)
  have nonneg: "\<forall>(doc, d)\<in>set [(doc_a, Finite 1)]. \<exists>v. d = Finite v \<and> 0 \<le> v"
    by simp
  have sim: "to_similarity ex_env (Finite 1) = Inr (Finite (1 / 2))"
    by (simp add: to_similarity_def one_plus_def one_over_def ex_env_def)
  then have so: "sim_of ex_env (Finite 1) = Finite (1 / 2)"
    by (simp add: sim_of_def)
  have r4: "round4 ex_env (Finite (1 / 2)) = Finite (1 / 2)"
    using exact_round4_half by (simp add: ex_env_def)
  show ?thesis
    using C5_score_bounds [OF ix eng nonneg, of "Finite 0"] ex_arithmetic_ok
    by (simp add: so sim r4 to_chunk_def ex_coerce)
qed

theorem C5_score_counterexample:
  "search ex_env_scores ''q'' 5 (Finite 0) (Built ex_indexed) =
     Inr [to_chunk ex_env_scores doc_a (Finite (1 / 2)),
          to_chunk ex_env_scores doc_b (Finite (1 / 32768))]
   \<and> to_similarity ex_env_scores (Finite 32767) = Inr (Finite (1 / 32768))
   \<and> score (to_chunk ex_env_scores doc_b (Finite (1 / 32768))) = Some (Finite 0)
   \<and> Finite 0 \<noteq> Finite (1 / (1 + 32767))"
proof -
  have "search ex_env_scores ''q'' 5 (Finite 0) (Built ex_indexed) =
     Inr [to_chunk ex_env_scores doc_a (Finite (1 / 2)),
          to_chunk ex_env_scores doc_b (Finite (1 / 32768))]"
    using search_ok [of ex_indexed "[doc_a]" ex_env_scores "''q''" 5 _ "Finite 0"]
      ex_scores_engine ex_scores_computed
    by (simp add: ex_scores_sim_of ex_coerce)
  moreover have "round4 ex_env_scores (Finite (1 / 32768)) = Finite 0"
    using exact_round4_small by (simp add: ex_env_scores_def ex_env_def)
  ultimately show ?thesis
    using ex_scores_similarity by (simp add: to_chunk_def)
qed





section \<open>The singleton\<close>

lemma new_service_instance:
  assumes "new_service rt = (a, rt1)"
  shows "cls_instance rt1 = Some a \<and> load_calls rt1 = load_calls rt
     \<and> (\<forall>b. cls_instance rt = Some b \<longrightarrow> b = a \<and> rt1 = rt)"
  using assms by (auto simp: new_service_def split: option.splits)

lemma init_service_effect:
  assumes "init_service env a rt = (r, rt')"
  shows "cls_instance rt' = cls_instance rt
     \<and> (is_initialized rt a \<longrightarrow> rt' = rt \<and> r = Inr ())
     \<and> (\<not> is_initialized rt a \<longrightarrow>
          (\<exists>e. r = Inl e \<and> rt' = rt)
        \<or> (r = Inr () \<and> is_initialized rt' a \<and> load_calls rt' = Suc (load_calls rt)))"
  using assms
  by (auto simp: init_service_def is_initialized_def split: option.splits if_splits)

lemma construct_effect:
  assumes "construct_service env rt = (r, rt')"
  shows "\<exists>a. cls_instance rt' = Some a
     \<and> (\<forall>b. cls_instance rt = Some b \<longrightarrow> b = a)
     \<and> (\<forall>x. r = Inr x \<longrightarrow> x = a)
     \<and> (cls_instance rt = Some a \<and> is_initialized rt a \<longrightarrow>
          load_calls rt' = load_calls rt \<and> is_initialized rt' a)
     \<and> (load_calls rt' = load_calls rt
        \<or> load_calls rt' = Suc (load_calls rt) \<and> is_initialized rt' a)"
proof -
  obtain a rt1 where n: "new_service rt = (a, rt1)" by (cases "new_service rt")
  obtain r1 rt2 where i: "init_service env a rt1 = (r1, rt2)"
    by (cases "init_service env a rt1")
  from assms n i have rt': "rt' = rt2"
    by (simp add: construct_service_def bindM_def returnM_def split: sum.splits)
  from assms n i have r: "\<forall>x. r = Inr x \<longrightarrow> x = a"
    by (auto simp: construct_service_def bindM_def returnM_def split: sum.splits)
  from new_service_instance [OF n]
  have n1: "cls_instance rt1 = Some a" and n2: "load_calls rt1 = load_calls rt"
    and n3: "\<forall>b. cls_instance rt = Some b \<longrightarrow> b = a \<and> rt1 = rt"
    by blast+
  from init_service_effect [OF i]
  have i1: "cls_instance rt2 = cls_instance rt1"
    and i2: "is_initialized rt1 a \<longrightarrow> rt2 = rt1 \<and> r1 = Inr ()"
    and i3: "\<not> is_initialized rt1 a \<longrightarrow>
          (\<exists>e. r1 = Inl e \<and> rt2 = rt1)
        \<or> (r1 = Inr () \<and> is_initialized rt2 a \<and> load_calls rt2 = Suc (load_calls rt1))"
    by blast+
  have inst: "cls_instance rt' = Some a"
    using rt' i1 n1 by simp
  have same: "\<forall>b. cls_instance rt = Some b \<longrightarrow> b = a"
    using n3 by blast
  have keep: "cls_instance rt = Some a \<and> is_initialized rt a \<longrightarrow>
          load_calls rt' = load_calls rt \<and> is_initialized rt' a"
  proof
    assume h: "cls_instance rt = Some a \<and> is_initialized rt a"
    with n3 have "rt1 = rt" by blast
    with h i2 have "rt2 = rt" by simp
    with rt' h show "load_calls rt' = load_calls rt \<and> is_initialized rt' a" by simp
  qed
  have loads: "load_calls rt' = load_calls rt
        \<or> load_calls rt' = Suc (load_calls rt) \<and> is_initialized rt' a"
  proof (cases "is_initialized rt1 a")
    case True
    with i2 have "rt2 = rt1" by simp
    with rt' n2 show ?thesis by simp
  next
    case False
    with i3 have "rt2 = rt1
        \<or> (is_initialized rt2 a \<and> load_calls rt2 = Suc (load_calls rt1))"
      by blast
    then show ?thesis
    proof
      assume "rt2 = rt1"
      with rt' n2 show ?thesis by simp
    next
      assume "is_initialized rt2 a \<and> load_calls rt2 = Suc (load_calls rt1)"
      with rt' n2 show ?thesis by simp
    qed
  qed
  from inst same r keep loads show ?thesis by blast
qed

lemma is_initialized_cls_instance_update:
  "is_initialized (rt\<lparr>cls_instance := x\<rparr>) a = is_initialized rt a"
  by (simp add: is_initialized_def split: option.splits)

lemma get_instance_effect:
  assumes "get_instance env rt = (r, rt')"
  shows "\<exists>a. cls_instance rt' = Some a
     \<and> (\<forall>b. cls_instance rt = Some b \<longrightarrow> b = a)
     \<and> (\<forall>x. r = Inr x \<longrightarrow> x = a)
     \<and> (cls_instance rt = Some a \<and> is_initialized rt a \<longrightarrow>
          load_calls rt' = load_calls rt \<and> is_initialized rt' a)
     \<and> (load_calls rt' = load_calls rt
        \<or> load_calls rt' = Suc (load_calls rt) \<and> is_initialized rt' a)"
proof (cases "cls_instance rt")
  case (Some a)
  with assms have "rt' = rt" "r = Inr a" by (simp_all add: get_instance_def)
  with Some show ?thesis by simp
next
  case None
  obtain r1 rt1 where c: "construct_service env rt = (r1, rt1)" by (cases "construct_service env rt")
  from construct_effect [OF c] obtain a where a1: "cls_instance rt1 = Some a"
    and a2: "\<forall>x. r1 = Inr x \<longrightarrow> x = a"
    and a3: "load_calls rt1 = load_calls rt
        \<or> load_calls rt1 = Suc (load_calls rt) \<and> is_initialized rt1 a"
    by blast
  have "rt' = rt1 \<or> rt' = rt1\<lparr>cls_instance := Some a\<rparr>"
    using assms None c a2 by (cases r1) (auto simp: get_instance_def)
  then have inst: "cls_instance rt' = Some a"
    and l: "load_calls rt' = load_calls rt1"
    and ini: "is_initialized rt' a = is_initialized rt1 a"
    using a1 by (auto simp: is_initialized_cls_instance_update)
  have r: "\<forall>x. r = Inr x \<longrightarrow> x = a"
    using assms None c a2 by (cases r1) (auto simp: get_instance_def)
  from inst l ini r a3 None show ?thesis by simp
qed

lemma do_call_effect:
  assumes "do_call c rt = (r, rt')"
  shows "\<exists>a. cls_instance rt' = Some a
     \<and> (\<forall>b. cls_instance rt = Some b \<longrightarrow> b = a)
     \<and> (\<forall>x. r = Inr x \<longrightarrow> x = a)
     \<and> (cls_instance rt = Some a \<and> is_initialized rt a \<longrightarrow>
          load_calls rt' = load_calls rt \<and> is_initialized rt' a)
     \<and> (load_calls rt' = load_calls rt
        \<or> load_calls rt' = Suc (load_calls rt) \<and> is_initialized rt' a)"
proof -
  obtain env k where c: "c = (env, k)" by (cases c)
  show ?thesis
  proof (cases k)
    case Construct
    with assms c have "construct_service env rt = (r, rt')" by (simp add: do_call_def)
    then show ?thesis by (rule construct_effect)
  next
    case GetInstance
    with assms c have "get_instance env rt = (r, rt')" by (simp add: do_call_def)
    then show ?thesis by (rule get_instance_effect)
  qed
qed

lemma returned_Cons:
  "returned (r # rs) = (case r of Inl e \<Rightarrow> [] | Inr a \<Rightarrow> [a]) @ returned rs"
  by (simp add: returned_def)

text \<open>Once there is an initialized instance, a run returns it and loads nothing.\<close>

lemma run_calls_initialized:
  "run_calls cs rt = (rs, rt') \<Longrightarrow> cls_instance rt = Some a \<Longrightarrow> is_initialized rt a \<Longrightarrow>
   cls_instance rt' = Some a \<and> set (returned rs) \<subseteq> {a} \<and> load_calls rt' = load_calls rt"
proof (induction cs arbitrary: rt rs rt')
  case Nil
  then show ?case by (simp add: returned_def)
next
  case (Cons c cs)
  obtain r rt1 where c: "do_call c rt = (r, rt1)" by (cases "do_call c rt")
  obtain rs1 rt2 where rest: "run_calls cs rt1 = (rs1, rt2)" by (cases "run_calls cs rt1")
  from Cons.prems(1) c rest have out: "rs = r # rs1" "rt' = rt2" by auto
  from do_call_effect [OF c] Cons.prems(2,3)
  have 1: "cls_instance rt1 = Some a" "\<forall>x. r = Inr x \<longrightarrow> x = a"
    "load_calls rt1 = load_calls rt" "is_initialized rt1 a"
    by auto
  from Cons.IH [OF rest 1(1) 1(4)] 1 out show ?case
    by (auto simp: returned_Cons split: sum.splits)
qed

text \<open>With an instance that may not be initialized yet: the same object, at most one load.\<close>

lemma run_calls_instance:
  "run_calls cs rt = (rs, rt') \<Longrightarrow> cls_instance rt = Some a \<Longrightarrow>
   cls_instance rt' = Some a \<and> set (returned rs) \<subseteq> {a}
   \<and> load_calls rt' \<le> Suc (load_calls rt)"
proof (induction cs arbitrary: rt rs rt')
  case Nil
  then show ?case by (simp add: returned_def)
next
  case (Cons c cs)
  obtain r rt1 where c: "do_call c rt = (r, rt1)" by (cases "do_call c rt")
  obtain rs1 rt2 where rest: "run_calls cs rt1 = (rs1, rt2)" by (cases "run_calls cs rt1")
  from Cons.prems(1) c rest have out: "rs = r # rs1" "rt' = rt2" by auto
  from do_call_effect [OF c] Cons.prems(2)
  have 1: "cls_instance rt1 = Some a" "\<forall>x. r = Inr x \<longrightarrow> x = a"
    and 2: "load_calls rt1 = load_calls rt
        \<or> load_calls rt1 = Suc (load_calls rt) \<and> is_initialized rt1 a"
    by auto
  have r: "set (case r of Inl e \<Rightarrow> [] | Inr x \<Rightarrow> [x]) \<subseteq> {a}"
    using 1(2) by (auto split: sum.splits)
  from 2 show ?case
  proof
    assume same: "load_calls rt1 = load_calls rt"
    from Cons.IH [OF rest 1(1)] same out r show ?thesis
      by (auto simp: returned_Cons)
  next
    assume "load_calls rt1 = Suc (load_calls rt) \<and> is_initialized rt1 a"
    with run_calls_initialized [OF rest 1(1)] out r show ?thesis
      by (auto simp: returned_Cons)
  qed
qed

text \<open>
  Claim C10. In any run of constructions and \<open>get_instance\<close> calls without a reset,
  from any state of the class, every call that returns gives the object that is the
  class's instance at the end, which is the instance the class had at the start if it
  had one; \<open>_load_vector_store\<close> is called at most once in the whole run, and not at
  all when the run starts with an initialized instance. Calls are taken one after
  the other.
\<close>

theorem C10_singleton:
  assumes run: "run_calls (c # cs) rt = (rs, rt')"
  shows "\<exists>a. cls_instance rt' = Some a
     \<and> (\<forall>b\<in>set (returned rs). b = a)
     \<and> (\<forall>b. cls_instance rt = Some b \<longrightarrow> b = a)
     \<and> load_calls rt' \<le> Suc (load_calls rt)
     \<and> (cls_instance rt = Some a \<and> is_initialized rt a \<longrightarrow> load_calls rt' = load_calls rt)"
proof -
  obtain r rt1 where c: "do_call c rt = (r, rt1)" by (cases "do_call c rt")
  obtain rs1 rt2 where rest: "run_calls cs rt1 = (rs1, rt2)" by (cases "run_calls cs rt1")
  from run c rest have out: "rs = r # rs1" "rt' = rt2" by auto
  from do_call_effect [OF c] obtain a where
    1: "cls_instance rt1 = Some a" "\<forall>b. cls_instance rt = Some b \<longrightarrow> b = a"
       "\<forall>x. r = Inr x \<longrightarrow> x = a"
    and 2: "load_calls rt1 = load_calls rt
        \<or> load_calls rt1 = Suc (load_calls rt) \<and> is_initialized rt1 a"
    and 3: "cls_instance rt = Some a \<and> is_initialized rt a \<longrightarrow>
          load_calls rt1 = load_calls rt \<and> is_initialized rt1 a"
    by blast
  have r: "set (case r of Inl e \<Rightarrow> [] | Inr x \<Rightarrow> [x]) \<subseteq> {a}"
    using 1(3) by (auto split: sum.splits)
  have inst: "cls_instance rt' = Some a" and ret: "set (returned rs) \<subseteq> {a}"
    using run_calls_instance [OF rest 1(1)] out r by (auto simp: returned_Cons)
  have loads: "load_calls rt' \<le> Suc (load_calls rt)"
    using 2
  proof
    assume "load_calls rt1 = load_calls rt"
    with run_calls_instance [OF rest 1(1)] out show ?thesis by simp
  next
    assume "load_calls rt1 = Suc (load_calls rt) \<and> is_initialized rt1 a"
    with run_calls_initialized [OF rest 1(1)] out show ?thesis by simp
  qed
  have none: "cls_instance rt = Some a \<and> is_initialized rt a \<longrightarrow> load_calls rt' = load_calls rt"
    using 3 run_calls_initialized [OF rest 1(1)] out by auto
  from inst ret 1(2) loads none show ?thesis by blast
qed

lemma ex_run:
  "run_calls [(ex_env, Construct), (ex_env, Construct), (ex_env, GetInstance)] ex_runtime =
     ([Inr 0, Inr 0, Inr 0],
      ex_runtime\<lparr>cls_instance := Some 0,
        heap := (heap ex_runtime)(0 := \<lparr>obj_initialized = Some True, obj_vector_store = Some [doc_a]\<rparr>),
        next_addr := 1, rt_clock := 1, load_calls := 1\<rparr>)"
  by (simp add: do_call_def construct_service_def get_instance_def new_service_def init_service_def
      load_vector_store_def bindM_def returnM_def ex_runtime_def ex_env_def)

theorem C10_singleton_witness:
  "run_calls [(ex_env, Construct), (ex_env, Construct), (ex_env, GetInstance)] ex_runtime =
     ([Inr 0, Inr 0, Inr 0],
      ex_runtime\<lparr>cls_instance := Some 0,
        heap := (heap ex_runtime)(0 := \<lparr>obj_initialized = Some True, obj_vector_store = Some [doc_a]\<rparr>),
        next_addr := 1, rt_clock := 1, load_calls := 1\<rparr>)
   \<and> (\<exists>a. returned [Inr 0, Inr 0, Inr 0] = [a, a, a])
   \<and> load_calls (snd (run_calls [(ex_env, Construct), (ex_env, Construct), (ex_env, GetInstance)]
        ex_runtime)) \<le> Suc (load_calls ex_runtime)"
  using C10_singleton [OF ex_run] ex_run by (simp add: returned_def)

section \<open>The steps of the ingest pipeline\<close>

lemma split_eq:
  "split env docs s = (split_documents env docs, s\<lparr>trace := trace s @ [EvSplit docs]\<rparr>)"
  by (simp add: split_def bindM_def log_def liftE_def)

lemma build_eq:
  "build env chunks s =
     (from_documents env chunks, s\<lparr>trace := trace s @ [EvFromDocuments chunks]\<rparr>)"
  by (simp add: build_def bindM_def log_def liftE_def)

lemma merge_eq:
  "vector_store s = Some base \<Longrightarrow>
   merge env nv s =
     (case merge_from env base nv of
        Inl e \<Rightarrow> (Inl e, s\<lparr>trace := trace s @ [EvMergeFrom]\<rparr>)
      | Inr ix \<Rightarrow> (Inr (), s\<lparr>trace := trace s @ [EvMergeFrom], vector_store := Some ix\<rparr>))"
  by (simp add: merge_def bindM_def log_def liftE_def set_vector_store_def split: sum.splits)

text \<open>The three paths of lines 131 to 141.\<close>

lemma update_build:
  "vector_store s = None \<or> force_update \<Longrightarrow>
   update_vector_store env force_update documents chunks s =
     (case split_documents env documents of
        Inl e \<Rightarrow> (Inl e, s\<lparr>trace := trace s @ [EvSplit documents]\<rparr>)
      | Inr all_chunks \<Rightarrow>
          (case from_documents env all_chunks of
             Inl e \<Rightarrow>
               (Inl e, s\<lparr>trace := trace s @ [EvSplit documents, EvFromDocuments all_chunks]\<rparr>)
           | Inr ix \<Rightarrow>
               (Inr (), s\<lparr>trace := trace s @ [EvSplit documents, EvFromDocuments all_chunks],
                           vector_store := Some ix\<rparr>)))"
  by (auto simp: update_vector_store_def bindM_def split_eq build_eq set_vector_store_def
      split: sum.splits)

lemma update_merge:
  "vector_store s = Some base \<Longrightarrow> \<not> force_update \<Longrightarrow> chunks \<noteq> [] \<Longrightarrow>
   update_vector_store env force_update documents chunks s =
     (case from_documents env chunks of
        Inl e \<Rightarrow> (Inl e, s\<lparr>trace := trace s @ [EvFromDocuments chunks]\<rparr>)
      | Inr nv \<Rightarrow>
          (case merge_from env base nv of
             Inl e \<Rightarrow> (Inl e, s\<lparr>trace := trace s @ [EvFromDocuments chunks, EvMergeFrom]\<rparr>)
           | Inr ix \<Rightarrow>
               (Inr (), s\<lparr>trace := trace s @ [EvFromDocuments chunks, EvMergeFrom],
                           vector_store := Some ix\<rparr>)))"
  by (simp add: update_vector_store_def bindM_def build_eq merge_eq split: sum.splits)

lemma update_skip:
  "vector_store s = Some base \<Longrightarrow> \<not> force_update \<Longrightarrow>
   update_vector_store env force_update documents [] s = (Inr (), s)"
  by (simp add: update_vector_store_def)

lemma update_effect:
  assumes "update_vector_store env force_update documents chunks s = (r, s')"
  shows "hash_file s' = hash_file s \<and> store_dir s' = store_dir s
     \<and> (\<exists>evs. trace s' = trace s @ evs \<and> list_all is_pipeline evs)
     \<and> (r = Inr () \<longrightarrow> vector_store s' \<noteq> None)"
proof (cases "vector_store s = None \<or> force_update")
  case True
  from assms show ?thesis
    unfolding update_build [OF True]
    by (auto simp: is_pipeline_def split: sum.splits)
next
  case False
  then obtain base where b: "vector_store s = Some base" and f: "\<not> force_update" by auto
  show ?thesis
  proof (cases "chunks = []")
    case True
    with assms b f show ?thesis by (simp add: update_skip)
  next
    case False
    from assms show ?thesis
      unfolding update_merge [OF b f False]
      by (auto simp: is_pipeline_def split: sum.splits)
  qed
qed

lemma save_vector_store_effect:
  assumes "save_vector_store env s = (r, s')"
  shows "vector_store s' = vector_store s \<and> hash_file s' = hash_file s
     \<and> ((\<exists>e. r = Inl e) \<and> (trace s' = trace s \<or> trace s' = trace s @ [EvSaveLocal False])
       \<or> r = Inr () \<and> trace s' = trace s @ [EvSaveLocal True]
           \<and> (\<exists>ix. vector_store s = Some ix \<and> store_dir s' = Some (Saved ix)))"
  using assms
  by (auto simp: save_vector_store_def mkdir_store_def save_local_def bindM_def io_def
      split: option.splits sum.splits prod.splits)

lemma save_hashes_effect:
  assumes "save_hashes env cur s = (r, s')"
  shows "vector_store s' = vector_store s \<and> store_dir s' = store_dir s
     \<and> ((\<exists>e. r = Inl e)
           \<and> (trace s' = trace s \<and> hash_file s' = hash_file s
              \<or> trace s' = trace s @ [EvWriteHashes False]
                  \<and> hash_file s' = torn_hash_file env)
       \<or> r = Inr () \<and> trace s' = trace s @ [EvWriteHashes True]
           \<and> hash_file s' = Some (written env cur))"
  using assms
  by (auto simp: save_hashes_def write_text_def catchM_def raiseM_def bindM_def io_def
      split: option.splits sum.splits prod.splits)

lemmas run_defs =
  process_embeddings_def process_body_def ingest_def previous_hashes_def
  load_previous_hashes_def get_stats_def get_stats_body_def hash_mtime_def store_size_def
  chunk_count_def py_len_def
  update_vector_store_def save_vector_store_def mkdir_store_def save_local_def
  save_hashes_def write_text_def split_def build_def merge_def set_vector_store_def log_def
  bindM_def catchM_def returnM_def raiseM_def liftE_def io_def result_def
  subscript_key_def py_get_def written_def

lemma ex_stale_stats:
  "get_stats ex_env (ex_stale\<lparr>clock := c\<rparr>) =
     (Inr \<lparr>total_documents = 3, total_chunks = 2,
           last_update = Some ''2024-01-01T00:00:00'', vector_store_size = Some 0\<rparr>,
      ex_stale\<lparr>clock := c + 6\<rparr>)"
  by (simp add: run_defs ex_env_def ex_stale_def ex_stale_hashes_def)

lemma ex_disk_full_run:
  "trace (snd (process_embeddings ex_env_disk_full False ex_indexed)) =
     [EvSplit [doc_b], EvFromDocuments [doc_b], EvMergeFrom, EvSaveLocal False]"
  by (simp add: run_defs ex_env_disk_full_def ex_env_def ex_indexed_def ex_hashes_def
      doc_a_def doc_b_def Let_def)

section \<open>Runs of the ingest pipeline\<close>

lemma get_stats_frame:
  assumes "get_stats env s = (r, s')"
  shows "(\<exists>st. r = Inr st) \<and> s' = s\<lparr>clock := clock s'\<rparr>"
proof -
  from get_stats_returns [of env s] assms have "\<exists>st. r = Inr st" by auto
  moreover have "s' = s\<lparr>clock := clock s'\<rparr>"
    using only_clockD [OF only_clock_get_stats assms] .
  ultimately show ?thesis by blast
qed

lemma clock_only_fields:
  assumes "s' = s\<lparr>clock := c\<rparr>"
  shows "vector_store s' = vector_store s \<and> store_dir s' = store_dir s
     \<and> hash_file s' = hash_file s \<and> trace s' = trace s"
  using assms by simp

text \<open>Lines 143 to 157: saving the index, then the hashes, then the statistics.\<close>

lemma persist_phase:
  assumes run: "bindM (save_vector_store env) (\<lambda>_.
                bindM (save_hashes env cur) (\<lambda>_.
                bindM (get_stats env) (\<lambda>st. returnM (g st)))) s = (r, s')"
  shows "vector_store s' = vector_store s \<and>
     (\<exists>post. trace s' = trace s @ post \<and>
        ((\<exists>e. r = Inl e) \<and> hash_file s' = hash_file s
           \<and> post \<in> set [[], [EvSaveLocal False], [EvSaveLocal True]]
       \<or> (\<exists>e. r = Inl e) \<and> post = [EvSaveLocal True, EvWriteHashes False]
           \<and> hash_file s' = torn_hash_file env
       \<or> (\<exists>st. r = Inr (g st)) \<and> post = [EvSaveLocal True, EvWriteHashes True]
           \<and> hash_file s' = Some (written env cur)
           \<and> (\<exists>ix. vector_store s' = Some ix \<and> store_dir s' = Some (Saved ix))))"
  using run
proof (cases rule: bindM_E)
  case (raised e)
  from save_vector_store_effect [OF raised(1)]
  have "vector_store s' = vector_store s" "hash_file s' = hash_file s"
    "trace s' = trace s @ [] \<or> trace s' = trace s @ [EvSaveLocal False]"
    by auto
  with raised(2) show ?thesis by auto
next
  case (returned u s1)
  from save_vector_store_effect [OF returned(1)]
  obtain ix where s1: "vector_store s1 = vector_store s" "hash_file s1 = hash_file s"
    "trace s1 = trace s @ [EvSaveLocal True]" "vector_store s = Some ix"
    "store_dir s1 = Some (Saved ix)"
    by auto
  from returned(2) show ?thesis
  proof (cases rule: bindM_E)
    case (raised e)
    from save_hashes_effect [OF raised(1)]
    have "vector_store s' = vector_store s1"
      "trace s' = trace s1 \<and> hash_file s' = hash_file s1
        \<or> trace s' = trace s1 @ [EvWriteHashes False] \<and> hash_file s' = torn_hash_file env"
      by auto
    with s1 raised(2) show ?thesis by auto
  next
    case (returned u2 s2)
    from save_hashes_effect [OF returned(1)]
    have s2: "vector_store s2 = vector_store s1" "store_dir s2 = store_dir s1"
      "trace s2 = trace s1 @ [EvWriteHashes True]" "hash_file s2 = Some (written env cur)"
      by auto
    from returned(2) show ?thesis
    proof (cases rule: bindM_E)
      case (raised e)
      with get_stats_frame [OF raised(1)] show ?thesis by simp
    next
      case (returned st s3)
      from get_stats_frame [OF returned(1)] have "s3 = s2\<lparr>clock := clock s3\<rparr>" by simp
      from clock_only_fields [OF this]
      have s3: "vector_store s3 = vector_store s2" "store_dir s3 = store_dir s2"
        "hash_file s3 = hash_file s2" "trace s3 = trace s2"
        by simp_all
      from returned(2) have out: "r = Inr (g st)" "s' = s3"
        by (simp_all add: returnM_def)
      from s1 s2 s3 out show ?thesis by auto
    qed
  qed
qed

lemma ingest_effect:
  assumes run: "ingest env force_update documents new_docs cur s = (r, s')"
  shows "\<exists>pre post. trace s' = trace s @ pre @ post \<and> list_all is_pipeline pre \<and>
        ((\<exists>e. r = Inl e) \<and> hash_file s' = hash_file s
           \<and> post \<in> set [[], [EvSaveLocal False], [EvSaveLocal True]]
       \<or> (\<exists>e. r = Inl e) \<and> post = [EvSaveLocal True, EvWriteHashes False]
           \<and> hash_file s' = torn_hash_file env
       \<or> (\<exists>x. r = Inr x \<and> success x) \<and> post = [EvSaveLocal True, EvWriteHashes True]
           \<and> hash_file s' = Some (written env cur)
           \<and> (\<exists>ix. vector_store s' = Some ix \<and> store_dir s' = Some (Saved ix)))"
  using run unfolding ingest_def
proof (cases rule: bindM_E)
  case (raised e)
  then have "s' = s\<lparr>trace := trace s @ [EvSplit new_docs]\<rparr>"
    by (simp add: split_eq)
  then have "trace s' = trace s @ [EvSplit new_docs] @ []" "hash_file s' = hash_file s"
    by simp_all
  moreover have "list_all is_pipeline [EvSplit new_docs]"
    by (simp add: is_pipeline_def)
  moreover have "[] \<in> set [[], [EvSaveLocal False], [EvSaveLocal True]]"
    by simp
  ultimately show ?thesis using raised(2) by blast
next
  case (returned chunks s1)
  then have s1: "trace s1 = trace s @ [EvSplit new_docs]" "hash_file s1 = hash_file s"
    by (auto simp: split_eq)
  from returned(2) show ?thesis
  proof (cases rule: bindM_E)
    case (raised e)
    from update_effect [OF raised(1)] obtain evs where
      "hash_file s' = hash_file s1" "trace s' = trace s1 @ evs" "list_all is_pipeline evs"
      by blast
    with s1 have "trace s' = trace s @ (EvSplit new_docs # evs) @ []"
      "hash_file s' = hash_file s" "list_all is_pipeline (EvSplit new_docs # evs)"
      by (simp_all add: is_pipeline_def)
    moreover have "[] \<in> set [[], [EvSaveLocal False], [EvSaveLocal True]]"
      by simp
    ultimately show ?thesis using raised(2) by blast
  next
    case (returned u s2)
    from update_effect [OF returned(1)] obtain evs where
      s2: "hash_file s2 = hash_file s1" "trace s2 = trace s1 @ evs" "list_all is_pipeline evs"
      by blast
    let ?g = "\<lambda>st. result True
       (''Successfully processed '' @ show_nat (length new_docs) @
        '' documents and created '' @ show_nat (length chunks) @ '' chunks'') st"
    from persist_phase [OF returned(2)] obtain post where
      post: "trace s' = trace s2 @ post"
        "((\<exists>e. r = Inl e) \<and> hash_file s' = hash_file s2
           \<and> post \<in> set [[], [EvSaveLocal False], [EvSaveLocal True]]
       \<or> (\<exists>e. r = Inl e) \<and> post = [EvSaveLocal True, EvWriteHashes False]
           \<and> hash_file s' = torn_hash_file env
       \<or> (\<exists>st. r = Inr (?g st)) \<and> post = [EvSaveLocal True, EvWriteHashes True]
           \<and> hash_file s' = Some (written env cur)
           \<and> (\<exists>ix. vector_store s' = Some ix \<and> store_dir s' = Some (Saved ix)))"
      by blast
    have tr: "trace s' = trace s @ (EvSplit new_docs # evs) @ post"
      using post(1) s1 s2 by simp
    have pl: "list_all is_pipeline (EvSplit new_docs # evs)"
      using s2(3) by (simp add: is_pipeline_def)
    have ok: "\<exists>x. r = Inr x \<and> success x" if "\<exists>st. r = Inr (?g st)"
      using that by (auto simp: result_def)
    from post(2) s1 s2 ok have
      "((\<exists>e. r = Inl e) \<and> hash_file s' = hash_file s
           \<and> post \<in> set [[], [EvSaveLocal False], [EvSaveLocal True]]
       \<or> (\<exists>e. r = Inl e) \<and> post = [EvSaveLocal True, EvWriteHashes False]
           \<and> hash_file s' = torn_hash_file env
       \<or> (\<exists>x. r = Inr x \<and> success x) \<and> post = [EvSaveLocal True, EvWriteHashes True]
           \<and> hash_file s' = Some (written env cur)
           \<and> (\<exists>ix. vector_store s' = Some ix \<and> store_dir s' = Some (Saved ix)))"
      by metis
    with tr pl show ?thesis by blast
  qed
qed

text \<open>A run of the body either changes nothing or reaches the indexing steps.\<close>

lemma process_body_cases:
  assumes run: "process_body env force_update s = (r, s')"
  obtains (early) "s' = s\<lparr>clock := clock s'\<rparr>"
  | (reached) documents prev new_docs kept_docs cur s1 where
      "load_documents env = Inr documents" "documents \<noteq> []"
      "previous_hashes env force_update s = (Inr prev, s1)"
      "classify env prev documents ([], [], Map.empty) = Inr (new_docs, kept_docs, cur)"
      "new_docs \<noteq> [] \<or> force_update"
      "ingest env force_update documents new_docs cur s1 = (r, s')"
  using run unfolding process_body_def
proof (cases rule: bindM_E)
  case (raised e)
  then have "s' = s" by (simp add: liftE_def)
  then show ?thesis using early by simp
next
  case (returned documents s0)
  then have docs: "load_documents env = Inr documents" and s0: "s0 = s"
    by (simp_all add: liftE_def)
  show ?thesis
  proof (cases "documents = []")
    case True
    with returned(2) have "bindM (get_stats env) (\<lambda>st.
       returnM (result False ''No documents found to process'' st)) s = (r, s')"
      using s0 by simp
    then have "s' = s\<lparr>clock := clock s'\<rparr>"
      by (rule only_clockD [OF only_clock_bindM [OF only_clock_get_stats only_clock_returnM]])
    then show ?thesis by (rule early)
  next
    case False
    with returned(2) s0 have rest:
      "bindM (previous_hashes env force_update) (\<lambda>prev_hashes.
       bindM (liftE (classify env prev_hashes documents ([], [], Map.empty)))
         (\<lambda>(new_docs, kept_docs, current_hashes).
       if new_docs = [] \<and> \<not> force_update then
         bindM (get_stats env) (\<lambda>st.
         returnM (result True ''No changes detected. Vector store is up to date.'' st))
       else
         ingest env force_update documents new_docs current_hashes)) s = (r, s')"
      by simp
    from rest show ?thesis
    proof (cases rule: bindM_E)
      case (raised e)
      then have "s' = s\<lparr>clock := clock s'\<rparr>"
        using only_clockD [OF only_clock_previous_hashes] by blast
      then show ?thesis by (rule early)
    next
      case (returned prev s1)
      have s1: "s1 = s\<lparr>clock := clock s1\<rparr>"
        using only_clockD [OF only_clock_previous_hashes returned(1)] .
      from returned(2) show ?thesis
      proof (cases rule: bindM_E)
        case (raised e)
        then have "s' = s1" by (simp add: liftE_def)
        with s1 have "s' = s\<lparr>clock := clock s'\<rparr>" by simp
        then show ?thesis by (rule early)
      next
        case (returned triple s2)
        obtain new_docs kept_docs cur where t: "triple = (new_docs, kept_docs, cur)"
          by (cases triple)
        from returned(1) t have cl:
          "classify env prev documents ([], [], Map.empty) = Inr (new_docs, kept_docs, cur)"
          and s2: "s2 = s1"
          by (simp_all add: liftE_def)
        show ?thesis
        proof (cases "new_docs = [] \<and> \<not> force_update")
          case True
          with returned(2) t s2 have "bindM (get_stats env) (\<lambda>st.
             returnM (result True ''No changes detected. Vector store is up to date.'' st)) s1
               = (r, s')"
            by simp
          then have "s' = s1\<lparr>clock := clock s'\<rparr>"
            by (rule only_clockD [OF only_clock_bindM [OF only_clock_get_stats only_clock_returnM]])
          with s1 have "s' = s\<lparr>clock := clock s'\<rparr>"
            by (metis (no_types, lifting) service.surjective service.update_convs(4))
          then show ?thesis by (rule early)
        next
          case False
          with returned(2) t s2 have
            "ingest env force_update documents new_docs cur s1 = (r, s')"
            by auto
          with docs \<open>documents \<noteq> []\<close> \<open>previous_hashes env force_update s = (Inr prev, s1)\<close>
            cl False show ?thesis
            by (intro reached [of documents prev s1 new_docs kept_docs cur]) auto
        qed
      qed
    qed
  qed
qed

text \<open>What \<open>process_embeddings\<close> adds to its body changes the operation count only.\<close>

lemma process_embeddings_body:
  assumes "process_embeddings env force_update s = (r, s')"
  shows "\<exists>rb sb. process_body env force_update s = (rb, sb)
     \<and> s' = sb\<lparr>clock := clock s'\<rparr>
     \<and> (\<forall>x. rb = Inr x \<longrightarrow> r = Inr x)
     \<and> (\<forall>e. rb = Inl e \<longrightarrow> (\<exists>x. r = Inr x \<and> \<not> success x))"
proof -
  obtain rb sb where body: "process_body env force_update s = (rb, sb)"
    by (cases "process_body env force_update s")
  show ?thesis
  proof (cases rb)
    case (Inl e)
    from process_embeddings_caught [of env force_update s e sb] body Inl
    obtain st s2 where st: "get_stats env sb = (Inr st, s2)"
      "process_embeddings env force_update s =
         (Inr (result False (''Error processing embeddings: '' @ exn_msg e) st), s2)"
      by blast
    with assms have "s' = s2" "r = Inr (result False (''Error processing embeddings: '' @ exn_msg e) st)"
      by simp_all
    moreover have "s2 = sb\<lparr>clock := clock s2\<rparr>"
      using get_stats_frame [OF st(1)] by simp
    ultimately show ?thesis using body Inl by (auto simp: result_def)
  next
    case (Inr x)
    with process_embeddings_passed [of env force_update s x sb] body assms
    have "s' = sb" "r = Inr x" by simp_all
    with body Inr show ?thesis by auto
  qed
qed

lemma pipeline_not_persist:
  "list_all is_pipeline pre \<Longrightarrow> EvSaveLocal b \<notin> set pre \<and> EvWriteHashes b \<notin> set pre"
  by (induction pre) (auto simp: is_pipeline_def)

lemma commit_ordered_pipeline:
  "list_all is_pipeline pre \<Longrightarrow> commit_ordered b (pre @ post) = commit_ordered b post"
proof (induction pre)
  case Nil
  then show ?case by simp
next
  case (Cons ev pre)
  then show ?case by (cases ev) (simp_all add: is_pipeline_def)
qed

lemma new_events_append: "trace s' = trace s @ evs \<Longrightarrow> new_events s s' = evs"
  by (simp add: new_events_def)

text \<open>The shapes of the log of one run.\<close>

lemma process_effect:
  assumes run: "process_embeddings env force_update s = (r, s')"
  shows "\<exists>pre post. trace s' = trace s @ pre @ post \<and> list_all is_pipeline pre \<and>
      (pre = [] \<and> post = [] \<and> hash_file s' = hash_file s
     \<or> (\<exists>x. r = Inr x \<and> \<not> success x) \<and> hash_file s' = hash_file s
           \<and> post \<in> set [[], [EvSaveLocal False], [EvSaveLocal True]]
     \<or> (\<exists>x. r = Inr x \<and> \<not> success x) \<and> post = [EvSaveLocal True, EvWriteHashes False]
           \<and> hash_file s' = torn_hash_file env
     \<or> (\<exists>x. r = Inr x \<and> success x) \<and> post = [EvSaveLocal True, EvWriteHashes True]
           \<and> commits env force_update s s'
           \<and> (\<exists>ix. vector_store s' = Some ix \<and> store_dir s' = Some (Saved ix)))"
proof -
  from process_embeddings_body [OF run] obtain rb sb where
    body: "process_body env force_update s = (rb, sb)"
    and s': "s' = sb\<lparr>clock := clock s'\<rparr>"
    and ok: "\<forall>x. rb = Inr x \<longrightarrow> r = Inr x"
    and bad: "\<forall>e. rb = Inl e \<longrightarrow> (\<exists>x. r = Inr x \<and> \<not> success x)"
    by blast
  from clock_only_fields [OF s'] have f: "vector_store s' = vector_store sb"
    "store_dir s' = store_dir sb" "hash_file s' = hash_file sb" "trace s' = trace sb"
    by simp_all
  from body show ?thesis
  proof (cases rule: process_body_cases)
    case early
    from clock_only_fields [OF early] f
    have "trace s' = trace s @ [] @ []" "hash_file s' = hash_file s" by simp_all
    moreover have "list_all is_pipeline []" by simp
    ultimately show ?thesis by blast
  next
    case (reached documents prev new_docs kept_docs cur s1)
    have "s1 = s\<lparr>clock := clock s1\<rparr>"
      using only_clockD [OF only_clock_previous_hashes reached(3)] .
    from clock_only_fields [OF this]
    have s1: "trace s1 = trace s" "hash_file s1 = hash_file s" by simp_all
    from ingest_effect [OF reached(6)] obtain pre post where
      tr: "trace sb = trace s1 @ pre @ post" and pl: "list_all is_pipeline pre"
      and sh: "((\<exists>e. rb = Inl e) \<and> hash_file sb = hash_file s1
           \<and> post \<in> set [[], [EvSaveLocal False], [EvSaveLocal True]]
       \<or> (\<exists>e. rb = Inl e) \<and> post = [EvSaveLocal True, EvWriteHashes False]
           \<and> hash_file sb = torn_hash_file env
       \<or> (\<exists>x. rb = Inr x \<and> success x) \<and> post = [EvSaveLocal True, EvWriteHashes True]
           \<and> hash_file sb = Some (written env cur)
           \<and> (\<exists>ix. vector_store sb = Some ix \<and> store_dir sb = Some (Saved ix)))"
      by blast
    have tr': "trace s' = trace s @ pre @ post"
      using tr f s1 by simp
    have cm: "commits env force_update s s'" if "hash_file sb = Some (written env cur)"
      unfolding commits_def
      using reached(1,3,4) that f(3) by metis
    from sh ok bad f s1 cm
    have "(\<exists>x. r = Inr x \<and> \<not> success x) \<and> hash_file s' = hash_file s
           \<and> post \<in> set [[], [EvSaveLocal False], [EvSaveLocal True]]
     \<or> (\<exists>x. r = Inr x \<and> \<not> success x) \<and> post = [EvSaveLocal True, EvWriteHashes False]
           \<and> hash_file s' = torn_hash_file env
     \<or> (\<exists>x. r = Inr x \<and> success x) \<and> post = [EvSaveLocal True, EvWriteHashes True]
           \<and> commits env force_update s s'
           \<and> (\<exists>ix. vector_store s' = Some ix \<and> store_dir s' = Some (Saved ix))"
      by metis
    with tr' pl show ?thesis by blast
  qed
qed

text \<open>
  Claim C4. In every run of \<open>process_embeddings\<close>, whatever fails: the log only grows;
  every write of the hash file comes after a save of the index that succeeded in the
  same run; a run in which no save of the index succeeded (in particular one whose save
  failed) leaves the hash file as it was; a run that wrote the hash file has on disk
  the index it has in memory, has in the hash file the current map of the documents
  it fetched (each key with the hash of its content, as classified against the
  previous map), and reports success; a run whose write of the hash file failed leaves
  there what the failed write left; and a run that reports success either changed
  nothing or ended by saving the index and then writing the hash file.
\<close>

theorem C4_commit_order:
  assumes run: "process_embeddings env force_update s = (r, s')"
  shows "trace s' = trace s @ new_events s s'
   \<and> commit_ordered False (new_events s s')
   \<and> (EvSaveLocal True \<notin> set (new_events s s') \<longrightarrow> hash_file s' = hash_file s)
   \<and> (EvWriteHashes True \<in> set (new_events s s') \<longrightarrow>
        (\<exists>ix. vector_store s' = Some ix \<and> store_dir s' = Some (Saved ix))
        \<and> (\<exists>x. r = Inr x \<and> success x))
   \<and> ((\<exists>x. r = Inr x \<and> success x) \<longrightarrow>
        new_events s s' = []
      \<or> (\<exists>pre. list_all is_pipeline pre
            \<and> new_events s s' = pre @ [EvSaveLocal True, EvWriteHashes True]))
   \<and> (EvWriteHashes True \<in> set (new_events s s') \<longrightarrow>
        (\<exists>documents prev new_docs kept_docs cur s1.
            load_documents env = Inr documents
          \<and> previous_hashes env force_update s = (Inr prev, s1)
          \<and> classify env prev documents ([], [], Map.empty) = Inr (new_docs, kept_docs, cur)
          \<and> hash_file s' = Some (written env cur)))
   \<and> (EvWriteHashes False \<in> set (new_events s s') \<longrightarrow>
        hash_file s' = torn_hash_file env \<and> (\<exists>x. r = Inr x \<and> \<not> success x))"
proof -
  from process_effect [OF run] obtain pre post where
    tr: "trace s' = trace s @ pre @ post" and pl: "list_all is_pipeline pre"
    and sh: "pre = [] \<and> post = [] \<and> hash_file s' = hash_file s
     \<or> (\<exists>x. r = Inr x \<and> \<not> success x) \<and> hash_file s' = hash_file s
           \<and> post \<in> set [[], [EvSaveLocal False], [EvSaveLocal True]]
     \<or> (\<exists>x. r = Inr x \<and> \<not> success x) \<and> post = [EvSaveLocal True, EvWriteHashes False]
           \<and> hash_file s' = torn_hash_file env
     \<or> (\<exists>x. r = Inr x \<and> success x) \<and> post = [EvSaveLocal True, EvWriteHashes True]
           \<and> commits env force_update s s'
           \<and> (\<exists>ix. vector_store s' = Some ix \<and> store_dir s' = Some (Saved ix))"
    by blast
  have ne: "new_events s s' = pre @ post"
    using new_events_append [OF tr] .
  have np: "EvSaveLocal b \<notin> set pre" "EvWriteHashes b \<notin> set pre" for b
    using pipeline_not_persist [OF pl] by simp_all
  have 1: "trace s' = trace s @ new_events s s'"
    using tr ne by simp
  have 2: "commit_ordered False (new_events s s')"
    using sh by (auto simp: ne commit_ordered_pipeline [OF pl])
  have 3: "EvSaveLocal True \<notin> set (new_events s s') \<longrightarrow> hash_file s' = hash_file s"
    using sh by (auto simp: ne)
  have 4: "EvWriteHashes True \<in> set (new_events s s') \<longrightarrow>
        (\<exists>ix. vector_store s' = Some ix \<and> store_dir s' = Some (Saved ix))
        \<and> (\<exists>x. r = Inr x \<and> success x)"
    using sh np by (auto simp: ne)
  have 5: "(\<exists>x. r = Inr x \<and> success x) \<longrightarrow>
        new_events s s' = []
      \<or> (\<exists>pre. list_all is_pipeline pre
            \<and> new_events s s' = pre @ [EvSaveLocal True, EvWriteHashes True])"
    using sh pl by (auto simp: ne)
  have "EvWriteHashes True \<in> set (new_events s s') \<longrightarrow> commits env force_update s s'"
    using sh np by (auto simp: ne)
  then have 6: "EvWriteHashes True \<in> set (new_events s s') \<longrightarrow>
        (\<exists>documents prev new_docs kept_docs cur s1.
            load_documents env = Inr documents
          \<and> previous_hashes env force_update s = (Inr prev, s1)
          \<and> classify env prev documents ([], [], Map.empty) = Inr (new_docs, kept_docs, cur)
          \<and> hash_file s' = Some (written env cur))"
    by (simp add: commits_def)
  have 7: "EvWriteHashes False \<in> set (new_events s s') \<longrightarrow>
        hash_file s' = torn_hash_file env \<and> (\<exists>x. r = Inr x \<and> \<not> success x)"
    using sh np by (auto simp: ne)
  from 1 2 3 4 5 6 7 show ?thesis by blast
qed

lemma ex_commit_run:
  "trace (snd (process_embeddings ex_env False ex_indexed)) =
     [EvSplit [doc_b], EvFromDocuments [doc_b], EvMergeFrom, EvSaveLocal True,
      EvWriteHashes True]"
  by (simp add: run_defs ex_env_def ex_indexed_def ex_hashes_def
      doc_a_def doc_b_def Let_def)

theorem C4_commit_order_witness:
  "new_events ex_indexed (snd (process_embeddings ex_env_disk_full False ex_indexed)) =
     [EvSplit [doc_b], EvFromDocuments [doc_b], EvMergeFrom, EvSaveLocal False]
   \<and> hash_file (snd (process_embeddings ex_env_disk_full False ex_indexed)) =
       hash_file ex_indexed
   \<and> new_events ex_indexed (snd (process_embeddings ex_env False ex_indexed)) =
     [EvSplit [doc_b], EvFromDocuments [doc_b], EvMergeFrom, EvSaveLocal True,
      EvWriteHashes True]
   \<and> commit_ordered False
       (new_events ex_indexed (snd (process_embeddings ex_env False ex_indexed)))
   \<and> (\<exists>x. fst (process_embeddings ex_env False ex_indexed) = Inr x \<and> success x)
   \<and> hash_file (snd (process_embeddings ex_env False ex_indexed)) =
       Some (written ex_env (recorded ex_env [doc_a, doc_b] Map.empty))"
proof -
  have t0: "trace ex_indexed = []" by (simp add: ex_indexed_def)
  have full: "new_events ex_indexed (snd (process_embeddings ex_env_disk_full False ex_indexed)) =
     [EvSplit [doc_b], EvFromDocuments [doc_b], EvMergeFrom, EvSaveLocal False]"
    by (simp add: new_events_def t0 ex_disk_full_run)
  have good: "new_events ex_indexed (snd (process_embeddings ex_env False ex_indexed)) =
     [EvSplit [doc_b], EvFromDocuments [doc_b], EvMergeFrom, EvSaveLocal True,
      EvWriteHashes True]"
    by (simp add: new_events_def t0 ex_commit_run)
  have r1: "process_embeddings ex_env_disk_full False ex_indexed =
      (fst (process_embeddings ex_env_disk_full False ex_indexed),
       snd (process_embeddings ex_env_disk_full False ex_indexed))"
    by simp
  have r2: "process_embeddings ex_env False ex_indexed =
      (fst (process_embeddings ex_env False ex_indexed),
       snd (process_embeddings ex_env False ex_indexed))"
    by simp
  have keys: "\<forall>d\<in>set [doc_a, doc_b]. m_key (metadata d) \<noteq> None"
    by (simp add: doc_a_def doc_b_def)
  have load: "load_documents ex_env = Inr [doc_a, doc_b]"
    by (simp add: ex_env_def)
  have prev: "previous_hashes ex_env False ex_indexed =
       (Inr (PDict ex_hashes), ex_indexed\<lparr>clock := Suc (Suc (clock ex_indexed))\<rparr>)"
    by (simp add: previous_hashes_loaded load_previous_hashes_dict ex_indexed_def ex_env_def)
  have cls: "classify ex_env (PDict ex_hashes) [doc_a, doc_b] ([], [], Map.empty) =
       Inr (filter (spec_to_process ex_env ex_hashes) [doc_a, doc_b],
            filter (\<lambda>d. \<not> spec_to_process ex_env ex_hashes d) [doc_a, doc_b],
            recorded ex_env [doc_a, doc_b] Map.empty)"
    using classify_dict [OF keys, of ex_env ex_hashes "[]" "[]" Map.empty] by simp
  from C4_commit_order [OF r2] good
  obtain documents prev_hashes new_docs kept_docs cur s1 where w:
    "load_documents ex_env = Inr documents"
    "previous_hashes ex_env False ex_indexed = (Inr prev_hashes, s1)"
    "classify ex_env prev_hashes documents ([], [], Map.empty) = Inr (new_docs, kept_docs, cur)"
    "hash_file (snd (process_embeddings ex_env False ex_indexed)) = Some (written ex_env cur)"
    by auto
  from w(1) load have "documents = [doc_a, doc_b]" by simp
  moreover from w(2) prev have "prev_hashes = PDict ex_hashes" by simp
  ultimately have "cur = recorded ex_env [doc_a, doc_b] Map.empty"
    using w(3) cls by simp
  with w(4) have hf: "hash_file (snd (process_embeddings ex_env False ex_indexed)) =
       Some (written ex_env (recorded ex_env [doc_a, doc_b] Map.empty))"
    by simp
  have rest: "new_events ex_indexed (snd (process_embeddings ex_env_disk_full False ex_indexed)) =
     [EvSplit [doc_b], EvFromDocuments [doc_b], EvMergeFrom, EvSaveLocal False]
   \<and> hash_file (snd (process_embeddings ex_env_disk_full False ex_indexed)) =
       hash_file ex_indexed
   \<and> new_events ex_indexed (snd (process_embeddings ex_env False ex_indexed)) =
     [EvSplit [doc_b], EvFromDocuments [doc_b], EvMergeFrom, EvSaveLocal True,
      EvWriteHashes True]
   \<and> commit_ordered False
       (new_events ex_indexed (snd (process_embeddings ex_env False ex_indexed)))
   \<and> (\<exists>x. fst (process_embeddings ex_env False ex_indexed) = Inr x \<and> success x)"
    using C4_commit_order [OF r1] C4_commit_order [OF r2] full good
    by simp
  from rest hf show ?thesis by blast
qed

section \<open>The short circuit\<close>

lemma short_circuit:
  assumes load: "load_documents env = Inr documents" and ne: "documents \<noteq> []"
    and prev: "previous_hashes env False s = (Inr prev, s1)"
    and cls: "classify env prev documents ([], [], Map.empty) = Inr ([], kept_docs, cur)"
  shows "\<exists>st s'. get_stats env s1 = (Inr st, s') \<and>
     process_embeddings env False s =
       (Inr (result True ''No changes detected. Vector store is up to date.'' st), s')"
proof -
  obtain st s' where st: "get_stats env s1 = (Inr st, s')"
    using get_stats_returns by blast
  have "process_body env False s =
      (Inr (result True ''No changes detected. Vector store is up to date.'' st), s')"
    using load ne prev cls st
    by (simp add: process_body_def bindM_def liftE_def returnM_def)
  then show ?thesis
    using st process_embeddings_passed by blast
qed

text \<open>
  Claim C7, as the code has it. When the documents fetched are not empty, none of them
  is to be processed and \<open>force_update\<close> is false, \<open>process_embeddings\<close> reports
  success with the message that the vector store is up to date; it adds no step to the
  log (no chunking, no embedding, no merge, no save) and leaves the index in memory,
  the index on disk and the hash file as they were: the current map is not written.
\<close>

theorem C7_short_circuit:
  assumes load: "load_documents env = Inr documents" and ne: "documents \<noteq> []"
    and keys: "\<forall>d\<in>set documents. m_key (metadata d) \<noteq> None"
    and prev: "previous_hashes env False s = (Inr (PDict p), s1)"
    and none: "\<forall>d\<in>set documents. \<not> spec_to_process env p d"
  shows "\<exists>st s'. process_embeddings env False s =
       (Inr \<lparr>success = True,
             message = ''No changes detected. Vector store is up to date.'',
             stats = st\<rparr>, s')
   \<and> trace s' = trace s \<and> vector_store s' = vector_store s
   \<and> store_dir s' = store_dir s \<and> hash_file s' = hash_file s"
proof -
  have "filter (spec_to_process env p) documents = []"
    using none by (simp add: filter_empty_conv)
  then have cls: "classify env (PDict p) documents ([], [], Map.empty) =
      Inr ([], filter (\<lambda>d. \<not> spec_to_process env p d) documents,
           recorded env documents Map.empty)"
    using classify_dict [OF keys, of env p "[]" "[]" Map.empty] by simp
  from short_circuit [OF load ne prev cls] obtain st s' where
    st: "get_stats env s1 = (Inr st, s')"
    and run: "process_embeddings env False s =
       (Inr (result True ''No changes detected. Vector store is up to date.'' st), s')"
    by blast
  have "s1 = s\<lparr>clock := clock s1\<rparr>"
    using only_clockD [OF only_clock_previous_hashes prev] .
  from clock_only_fields [OF this]
  have a: "trace s1 = trace s" "vector_store s1 = vector_store s"
    "store_dir s1 = store_dir s" "hash_file s1 = hash_file s"
    by simp_all
  have "s' = s1\<lparr>clock := clock s'\<rparr>"
    using get_stats_frame [OF st] by simp
  from clock_only_fields [OF this]
  have b: "trace s' = trace s1" "vector_store s' = vector_store s1"
    "store_dir s' = store_dir s1" "hash_file s' = hash_file s1"
    by simp_all
  from run a b show ?thesis
    by (auto simp: result_def)
qed

lemma ex_stale_prev:
  "previous_hashes ex_env False ex_stale = (Inr (PDict ex_stale_hashes), ex_stale\<lparr>clock := 2\<rparr>)"
  by (simp add: run_defs ex_env_def ex_stale_def)

lemma ex_stale_none:
  "\<forall>d\<in>set [doc_a, doc_b]. \<not> spec_to_process ex_env ex_stale_hashes d"
  by (simp add: spec_to_process_def ex_env_def ex_stale_hashes_def doc_a_def doc_b_def)

lemma ex_keys: "\<forall>d\<in>set [doc_a, doc_b]. m_key (metadata d) \<noteq> None"
  by (simp add: doc_a_def doc_b_def)

lemma ex_load: "load_documents ex_env = Inr [doc_a, doc_b]"
  by (simp add: ex_env_def)

theorem C7_short_circuit_witness:
  "\<exists>st s'. process_embeddings ex_env False ex_stale =
       (Inr \<lparr>success = True,
             message = ''No changes detected. Vector store is up to date.'',
             stats = st\<rparr>, s')
   \<and> trace s' = trace ex_stale \<and> vector_store s' = vector_store ex_stale
   \<and> store_dir s' = store_dir ex_stale \<and> hash_file s' = hash_file ex_stale"
  using C7_short_circuit [OF ex_load _ ex_keys ex_stale_prev ex_stale_none] by simp

lemma ex_stale_run:
  "process_embeddings ex_env False ex_stale =
     (Inr \<lparr>success = True,
           message = ''No changes detected. Vector store is up to date.'',
           stats = \<lparr>total_documents = 3, total_chunks = 2,
                     last_update = Some ''2024-01-01T00:00:00'',
                     vector_store_size = Some 0\<rparr>\<rparr>,
      ex_stale\<lparr>clock := 8\<rparr>)"
proof -
  have cls: "classify ex_env (PDict ex_stale_hashes) [doc_a, doc_b] ([], [], Map.empty) =
      Inr ([], [doc_a, doc_b], recorded ex_env [doc_a, doc_b] Map.empty)"
    using classify_dict [OF ex_keys, of ex_env ex_stale_hashes "[]" "[]" Map.empty]
      ex_stale_none by simp
  from short_circuit [OF ex_load _ ex_stale_prev cls]
  show ?thesis
    using ex_stale_stats [of 2] by (simp add: result_def)
qed

theorem C7_map_not_persisted_counterexample:
  "process_embeddings ex_env False ex_stale =
     (Inr \<lparr>success = True,
           message = ''No changes detected. Vector store is up to date.'',
           stats = \<lparr>total_documents = 3, total_chunks = 2,
                     last_update = Some ''2024-01-01T00:00:00'',
                     vector_store_size = Some 0\<rparr>\<rparr>,
      ex_stale\<lparr>clock := 8\<rparr>)
   \<and> classify ex_env (PDict ex_stale_hashes) [doc_a, doc_b] ([], [], Map.empty) =
       Inr ([], [doc_a, doc_b], recorded ex_env [doc_a, doc_b] Map.empty)
   \<and> dom (recorded ex_env [doc_a, doc_b] Map.empty) = {''A'', ''B''}
   \<and> dom ex_stale_hashes = {''A'', ''B'', ''C''}
   \<and> hash_file (ex_stale\<lparr>clock := 8\<rparr>) =
       Some (HFile (Parsed (PDict ex_stale_hashes)) ''2024-01-01T00:00:00'')
   \<and> hash_file (ex_stale\<lparr>clock := 8\<rparr>) \<noteq>
       Some (written ex_env (recorded ex_env [doc_a, doc_b] Map.empty))"
proof -
  have cls: "classify ex_env (PDict ex_stale_hashes) [doc_a, doc_b] ([], [], Map.empty) =
      Inr ([], [doc_a, doc_b], recorded ex_env [doc_a, doc_b] Map.empty)"
    using classify_dict [OF ex_keys, of ex_env ex_stale_hashes "[]" "[]" Map.empty]
      ex_stale_none by simp
  have "dom (recorded ex_env [doc_a, doc_b] Map.empty) =
      dom (Map.empty :: string \<rightharpoonup> hash) \<union> {k. \<exists>d\<in>set [doc_a, doc_b]. m_key (metadata d) = Some k}"
    by (rule dom_recorded)
  also have "\<dots> = {''A'', ''B''}"
    by (auto simp: doc_a_def doc_b_def)
  finally have d1: "dom (recorded ex_env [doc_a, doc_b] Map.empty) = {''A'', ''B''}" .
  have d2: "dom ex_stale_hashes = {''A'', ''B'', ''C''}"
    by (auto simp: ex_stale_hashes_def)
  have h: "hash_file (ex_stale\<lparr>clock := 8\<rparr>) =
       Some (HFile (Parsed (PDict ex_stale_hashes)) ''2024-01-01T00:00:00'')"
    by (simp add: ex_stale_def)
  have "''C'' \<notin> dom (recorded ex_env [doc_a, doc_b] Map.empty)"
    by (subst d1) simp
  then have "recorded ex_env [doc_a, doc_b] Map.empty ''C'' = None"
    by (meson domIff)
  then have "(\<lambda>k. map_option JStr (recorded ex_env [doc_a, doc_b] Map.empty k)) ''C'' = None"
    by (simp del: recorded.simps)
  moreover have "ex_stale_hashes ''C'' \<noteq> None"
    by (simp add: ex_stale_hashes_def)
  ultimately have "ex_stale_hashes \<noteq> (\<lambda>k. map_option JStr (recorded ex_env [doc_a, doc_b] Map.empty k))"
    by metis
  then have n: "hash_file (ex_stale\<lparr>clock := 8\<rparr>) \<noteq>
       Some (written ex_env (recorded ex_env [doc_a, doc_b] Map.empty))"
    by (simp add: h written_def)
  from ex_stale_run cls d1 d2 h n show ?thesis by blast
qed

section \<open>Building or merging\<close>

lemma process_body_reaches:
  assumes "load_documents env = Inr documents" "documents \<noteq> []"
    and "previous_hashes env force_update s = (Inr prev, s1)"
    and "classify env prev documents ([], [], Map.empty) = Inr (new_docs, kept_docs, cur)"
    and "new_docs \<noteq> [] \<or> force_update"
  shows "process_body env force_update s = ingest env force_update documents new_docs cur s1"
  using assms by (auto simp: process_body_def bindM_def liftE_def)

lemma ingest_after_update:
  assumes chunks: "split_documents env new_docs = Inr chunks"
    and upd: "update_vector_store env force_update documents chunks
                (s\<lparr>trace := trace s @ [EvSplit new_docs]\<rparr>) = (Inr (), s2)"
    and run: "ingest env force_update documents new_docs cur s = (r, s')"
  shows "vector_store s' = vector_store s2 \<and>
     (\<exists>post. trace s' = trace s2 @ post \<and>
        post \<in> set [[], [EvSaveLocal False], [EvSaveLocal True],
                     [EvSaveLocal True, EvWriteHashes False],
                     [EvSaveLocal True, EvWriteHashes True]])"
proof -
  let ?g = "\<lambda>st. result True
       (''Successfully processed '' @ show_nat (length new_docs) @
        '' documents and created '' @ show_nat (length chunks) @ '' chunks'') st"
  have sp: "split env new_docs s = (Inr chunks, s\<lparr>trace := trace s @ [EvSplit new_docs]\<rparr>)"
    using chunks by (simp add: split_eq)
  have "ingest env force_update documents new_docs cur s =
      bindM (save_vector_store env) (\<lambda>_.
      bindM (save_hashes env cur) (\<lambda>_.
      bindM (get_stats env) (\<lambda>st. returnM (?g st)))) s2"
    unfolding ingest_def
    by (simp add: bindM_def sp upd)
  with run have "bindM (save_vector_store env) (\<lambda>_.
      bindM (save_hashes env cur) (\<lambda>_.
      bindM (get_stats env) (\<lambda>st. returnM (?g st)))) s2 = (r, s')"
    by simp
  from persist_phase [OF this] show ?thesis
    by auto
qed

text \<open>
  Claim C2, as the code has it. In a run that reaches the indexing step (documents
  fetched, some document to process or \<open>force_update\<close>, the documents to process split
  into chunks): when no index is loaded or \<open>force_update\<close> is true, all the fetched
  documents are split, a new index is built from all their chunks and it becomes the
  index in memory, whatever the previous one was; otherwise, with chunks to add, an
  index of those chunks alone is built and merged into the existing one; and without
  chunks no index is built and nothing is merged.
\<close>

theorem C2_build_or_merge:
  assumes load: "load_documents env = Inr documents" and ne: "documents \<noteq> []"
    and prev: "previous_hashes env force_update s = (Inr prev, s1)"
    and cls: "classify env prev documents ([], [], Map.empty) = Inr (new_docs, kept_docs, cur)"
    and work: "new_docs \<noteq> [] \<or> force_update"
    and chunks: "split_documents env new_docs = Inr chunks"
    and run: "process_embeddings env force_update s = (r, s')"
  shows "(vector_store s = None \<or> force_update \<longrightarrow>
      (\<forall>all_chunks ix. split_documents env documents = Inr all_chunks \<longrightarrow>
         from_documents env all_chunks = Inr ix \<longrightarrow>
         vector_store s' = Some ix
       \<and> take 3 (new_events s s') =
           [EvSplit new_docs, EvSplit documents, EvFromDocuments all_chunks]))
   \<and> (\<forall>base. vector_store s = Some base \<longrightarrow> \<not> force_update \<longrightarrow> chunks \<noteq> [] \<longrightarrow>
      (\<forall>nv ix. from_documents env chunks = Inr nv \<longrightarrow> merge_from env base nv = Inr ix \<longrightarrow>
         vector_store s' = Some ix
       \<and> take 3 (new_events s s') = [EvSplit new_docs, EvFromDocuments chunks, EvMergeFrom]))
   \<and> (\<forall>base. vector_store s = Some base \<longrightarrow> \<not> force_update \<longrightarrow> chunks = [] \<longrightarrow>
         vector_store s' = Some base
       \<and> (\<forall>ev\<in>set (new_events s s'). ev \<noteq> EvMergeFrom \<and> (\<forall>c. ev \<noteq> EvFromDocuments c)))"
proof -
  have "s1 = s\<lparr>clock := clock s1\<rparr>"
    using only_clockD [OF only_clock_previous_hashes prev] .
  from clock_only_fields [OF this]
  have s1: "trace s1 = trace s" "vector_store s1 = vector_store s" by simp_all
  from process_embeddings_body [OF run] obtain rb sb where
    body: "process_body env force_update s = (rb, sb)"
    and s': "s' = sb\<lparr>clock := clock s'\<rparr>"
    and ok: "\<forall>x. rb = Inr x \<longrightarrow> r = Inr x"
    and bad: "\<forall>e. rb = Inl e \<longrightarrow> (\<exists>x. r = Inr x \<and> \<not> success x)"
    by blast
  from clock_only_fields [OF s']
  have sb: "trace s' = trace sb" "vector_store s' = vector_store sb" by simp_all
  have ing: "ingest env force_update documents new_docs cur s1 = (rb, sb)"
    using body process_body_reaches [OF load ne prev cls work] by simp
  let ?s1a = "s1\<lparr>trace := trace s1 @ [EvSplit new_docs]\<rparr>"
  have after: "vector_store s' = vector_store s2 \<and>
     (\<exists>post. trace s' = trace s2 @ post \<and>
        post \<in> set [[], [EvSaveLocal False], [EvSaveLocal True],
                     [EvSaveLocal True, EvWriteHashes False],
                     [EvSaveLocal True, EvWriteHashes True]])"
    if "update_vector_store env force_update documents chunks ?s1a = (Inr (), s2)" for s2
    using ingest_after_update [OF chunks that ing] sb by simp
  show ?thesis
  proof (intro conjI allI impI)
    fix all_chunks ix
    assume path: "vector_store s = None \<or> force_update"
      and a: "split_documents env documents = Inr all_chunks"
      and b: "from_documents env all_chunks = Inr ix"
    let ?s2 = "?s1a\<lparr>trace := trace ?s1a @ [EvSplit documents, EvFromDocuments all_chunks],
                    vector_store := Some ix\<rparr>"
    have p: "vector_store ?s1a = None \<or> force_update" using path s1 by simp
    have "update_vector_store env force_update documents chunks ?s1a = (Inr (), ?s2)"
      using update_build [OF p, of env documents chunks] a b by simp
    from after [OF this] obtain post where
      v: "vector_store s' = Some ix" and t: "trace s' = trace ?s2 @ post"
      by auto
    have "trace s' = trace s @
        [EvSplit new_docs, EvSplit documents, EvFromDocuments all_chunks] @ post"
      using t s1 by simp
    then have "new_events s s' =
        [EvSplit new_docs, EvSplit documents, EvFromDocuments all_chunks] @ post"
      by (rule new_events_append)
    then show "vector_store s' = Some ix"
      and "take 3 (new_events s s') =
           [EvSplit new_docs, EvSplit documents, EvFromDocuments all_chunks]"
      using v by simp_all
  next
    fix base nv ix
    assume vs: "vector_store s = Some base" and f: "\<not> force_update" and c: "chunks \<noteq> []"
      and a: "from_documents env chunks = Inr nv" and b: "merge_from env base nv = Inr ix"
    let ?s2 = "?s1a\<lparr>trace := trace ?s1a @ [EvFromDocuments chunks, EvMergeFrom],
                    vector_store := Some ix\<rparr>"
    have p: "vector_store ?s1a = Some base" using vs s1 by simp
    have "update_vector_store env force_update documents chunks ?s1a = (Inr (), ?s2)"
      using update_merge [OF p f c, of env documents] a b by simp
    from after [OF this] obtain post where
      v: "vector_store s' = Some ix" and t: "trace s' = trace ?s2 @ post"
      by auto
    have "trace s' = trace s @ [EvSplit new_docs, EvFromDocuments chunks, EvMergeFrom] @ post"
      using t s1 by simp
    then have "new_events s s' =
        [EvSplit new_docs, EvFromDocuments chunks, EvMergeFrom] @ post"
      by (rule new_events_append)
    then show "vector_store s' = Some ix"
      and "take 3 (new_events s s') = [EvSplit new_docs, EvFromDocuments chunks, EvMergeFrom]"
      using v by simp_all
  next
    fix base
    assume vs: "vector_store s = Some base" and f: "\<not> force_update" and c: "chunks = []"
    have p: "vector_store ?s1a = Some base" using vs s1 by simp
    have "update_vector_store env force_update documents chunks ?s1a = (Inr (), ?s1a)"
      using update_skip [OF p f, of env documents] c by simp
    from after [OF this] obtain post where
      v: "vector_store s' = vector_store ?s1a" and t: "trace s' = trace ?s1a @ post"
      and post: "post \<in> set [[], [EvSaveLocal False], [EvSaveLocal True],
                     [EvSaveLocal True, EvWriteHashes False],
                     [EvSaveLocal True, EvWriteHashes True]]"
      by auto
    have "trace s' = trace s @ [EvSplit new_docs] @ post"
      using t s1 by simp
    then have ne: "new_events s s' = [EvSplit new_docs] @ post"
      by (rule new_events_append)
    show "vector_store s' = Some base" using v p by simp
    show "\<forall>ev\<in>set (new_events s s'). ev \<noteq> EvMergeFrom \<and> (\<forall>c. ev \<noteq> EvFromDocuments c)"
      using post by (auto simp: ne)
  qed
qed

lemma ex_indexed_prev:
  "previous_hashes ex_env False ex_indexed = (Inr (PDict ex_hashes), ex_indexed\<lparr>clock := 2\<rparr>)"
  by (simp add: run_defs ex_env_def ex_indexed_def)

lemma ex_indexed_cls:
  "classify ex_env (PDict ex_hashes) [doc_a, doc_b] ([], [], Map.empty) =
     Inr ([doc_b], [doc_a], recorded ex_env [doc_a, doc_b] Map.empty)"
proof -
  have a: "spec_to_process ex_env ex_hashes doc_a = False"
    by (simp add: spec_to_process_def doc_a_def ex_hashes_def ex_env_def)
  have b: "spec_to_process ex_env ex_hashes doc_b = True"
    by (simp add: spec_to_process_def doc_b_def ex_hashes_def ex_env_def)
  show ?thesis
    using classify_dict [OF ex_keys, of ex_env ex_hashes "[]" "[]" Map.empty]
    by (simp add: a b del: classify.simps recorded.simps)
qed

lemma ex_forced_cls:
  "classify ex_env (PDict Map.empty) [doc_a, doc_b] ([], [], Map.empty) =
     Inr ([doc_a, doc_b], [], recorded ex_env [doc_a, doc_b] Map.empty)"
  using classify_dict [OF ex_keys, of ex_env Map.empty "[]" "[]" Map.empty]
  by (simp add: spec_to_process_empty [OF ex_keys] filter_empty_conv spec_to_process_def
      doc_a_def doc_b_def del: classify.simps recorded.simps)

theorem C2_build_or_merge_witness:
  "vector_store (snd (process_embeddings ex_env False ex_indexed)) = Some [doc_a, doc_b]
   \<and> take 3 (new_events ex_indexed (snd (process_embeddings ex_env False ex_indexed))) =
       [EvSplit [doc_b], EvFromDocuments [doc_b], EvMergeFrom]
   \<and> vector_store (snd (process_embeddings ex_env True ex_indexed)) = Some [doc_a, doc_b]
   \<and> take 3 (new_events ex_indexed (snd (process_embeddings ex_env True ex_indexed))) =
       [EvSplit [doc_a, doc_b], EvSplit [doc_a, doc_b], EvFromDocuments [doc_a, doc_b]]"
proof -
  have r1: "process_embeddings ex_env False ex_indexed =
      (fst (process_embeddings ex_env False ex_indexed),
       snd (process_embeddings ex_env False ex_indexed))"
    by simp
  have r2: "process_embeddings ex_env True ex_indexed =
      (fst (process_embeddings ex_env True ex_indexed),
       snd (process_embeddings ex_env True ex_indexed))"
    by simp
  have c1: "split_documents ex_env [doc_b] = Inr [doc_b]"
    and c2: "split_documents ex_env [doc_a, doc_b] = Inr [doc_a, doc_b]"
    and b1: "from_documents ex_env [doc_b] = Inr [doc_b]"
    and b2: "from_documents ex_env [doc_a, doc_b] = Inr [doc_a, doc_b]"
    and m: "merge_from ex_env [doc_a] [doc_b] = Inr [doc_a, doc_b]"
    and v: "vector_store ex_indexed = Some [doc_a]"
    by (simp_all add: ex_env_def ex_indexed_def)
  have merged: "vector_store (snd (process_embeddings ex_env False ex_indexed)) = Some [doc_a, doc_b]
   \<and> take 3 (new_events ex_indexed (snd (process_embeddings ex_env False ex_indexed))) =
       [EvSplit [doc_b], EvFromDocuments [doc_b], EvMergeFrom]"
    using C2_build_or_merge [OF ex_load _ ex_indexed_prev ex_indexed_cls _ c1 r1] b1 m v
    by simp
  have built: "vector_store (snd (process_embeddings ex_env True ex_indexed)) = Some [doc_a, doc_b]
   \<and> take 3 (new_events ex_indexed (snd (process_embeddings ex_env True ex_indexed))) =
       [EvSplit [doc_a, doc_b], EvSplit [doc_a, doc_b], EvFromDocuments [doc_a, doc_b]]"
    using C2_build_or_merge [OF ex_load _ previous_hashes_force ex_forced_cls _ c2 r2] c2 b2
    by simp
  from merged built show ?thesis by blast
qed

lemma ex_lost_prev:
  "previous_hashes ex_env False ex_lost = (Inr (PDict ex_stale_hashes), ex_lost\<lparr>clock := 2\<rparr>)"
  by (simp add: run_defs ex_env_def ex_lost_def ex_stale_def)

lemma ex_lost_stats:
  "get_stats ex_env (ex_lost\<lparr>clock := 2\<rparr>) =
     (Inr \<lparr>total_documents = 3, total_chunks = 0,
           last_update = Some ''2024-01-01T00:00:00'', vector_store_size = Some 0\<rparr>,
      ex_lost\<lparr>clock := 8\<rparr>)"
  by (simp add: run_defs ex_env_def ex_lost_def ex_stale_def ex_stale_hashes_def)

theorem C2_no_index_no_build_counterexample:
  "vector_store ex_lost = None
   \<and> process_embeddings ex_env False ex_lost =
       (Inr \<lparr>success = True,
             message = ''No changes detected. Vector store is up to date.'',
             stats = \<lparr>total_documents = 3, total_chunks = 0,
                       last_update = Some ''2024-01-01T00:00:00'',
                       vector_store_size = Some 0\<rparr>\<rparr>,
        ex_lost\<lparr>clock := 8\<rparr>)
   \<and> vector_store (ex_lost\<lparr>clock := 8\<rparr>) = None
   \<and> trace (ex_lost\<lparr>clock := 8\<rparr>) = []"
proof -
  have cls: "classify ex_env (PDict ex_stale_hashes) [doc_a, doc_b] ([], [], Map.empty) =
      Inr ([], [doc_a, doc_b], recorded ex_env [doc_a, doc_b] Map.empty)"
    using classify_dict [OF ex_keys, of ex_env ex_stale_hashes "[]" "[]" Map.empty]
      ex_stale_none by simp
  have run: "process_embeddings ex_env False ex_lost =
       (Inr \<lparr>success = True,
             message = ''No changes detected. Vector store is up to date.'',
             stats = \<lparr>total_documents = 3, total_chunks = 0,
                       last_update = Some ''2024-01-01T00:00:00'',
                       vector_store_size = Some 0\<rparr>\<rparr>,
        ex_lost\<lparr>clock := 8\<rparr>)"
    using short_circuit [OF ex_load _ ex_lost_prev cls] ex_lost_stats
    by (simp add: result_def)
  then show ?thesis
    by (simp add: ex_lost_def ex_stale_def)
qed

end
